theory Spec2Isabelle
  imports Complex_Main "HOL-Library.Char_ord" "HOL-Library.List_Lexorder"
begin

section \<open>The migration script \<^verbatim>\<open>scripts/migrate.js\<close>\<close>

text \<open>
  A shallow embedding of the class \<^verbatim>\<open>MigrationManager\<close>. File names, migration
  names and SQL text are strings of one-byte characters (ASCII names, for which the
  order of bytes is the order of UTF-16 code units that JavaScript compares by);
  JavaScript numbers that the script computes are values of \<open>js_number\<close>; exceptions
  are values of \<open>exn\<close>, and a function that can throw returns a sum with the
  exception on the left. What the script prints is left out.
\<close>

subsection \<open>JavaScript strings and numbers\<close>

text \<open>\<^verbatim>\<open>s.endsWith(suffix)\<close>.\<close>

definition endsWith :: "string \<Rightarrow> string \<Rightarrow> bool" where
  "endsWith s suffix =
     (length suffix \<le> length s \<and> drop (length s - length suffix) s = suffix)"

text \<open>\<^verbatim>\<open>s.replace(pat, rep)\<close> with a string pattern: only the first occurrence is replaced.\<close>

fun replace_first :: "string \<Rightarrow> string \<Rightarrow> string \<Rightarrow> string" where
  "replace_first pat rep [] = (if pat = [] then rep else [])"
| "replace_first pat rep (c # cs) =
     (if take (length pat) (c # cs) = pat then rep @ drop (length pat) (c # cs)
      else c # replace_first pat rep cs)"

text \<open>\<^verbatim>\<open>s.split(sep)[0]\<close> for a one-character separator: the text before its first occurrence.\<close>

definition split_first :: "char \<Rightarrow> string \<Rightarrow> string" where
  "split_first sep s = takeWhile (\<lambda>c. c \<noteq> sep) s"

text \<open>
  The numbers the script computes: \<^verbatim>\<open>parseInt\<close> yields an integer or \<^verbatim>\<open>NaN\<close>, the
  division in \<^verbatim>\<open>status\<close> yields a quotient, \<^verbatim>\<open>Infinity\<close> or \<^verbatim>\<open>NaN\<close>. Finite values are
  kept exact; the rounding of IEEE doubles (beyond \<open>2^53\<close>, or of quotients) is not
  modelled.
\<close>

datatype js_number = Finite rat | Infinity | NaN

definition js_whitespace :: "char \<Rightarrow> bool" where
  "js_whitespace c = (c \<in> set [CHR 0x20, CHR 0x09, CHR 0x0A, CHR 0x0B, CHR 0x0C, CHR 0x0D])"

definition digit_value :: "char \<Rightarrow> nat option" where
  "digit_value c =
     (let n = (of_char c :: nat) in
      if 48 \<le> n \<and> n \<le> 57 then Some (n - 48)
      else if 97 \<le> n \<and> n \<le> 122 then Some (n - 87)
      else if 65 \<le> n \<and> n \<le> 90 then Some (n - 55)
      else None)"

definition in_radix :: "nat \<Rightarrow> char \<Rightarrow> bool" where
  "in_radix R c = (case digit_value c of None \<Rightarrow> False | Some d \<Rightarrow> d < R)"

definition dv :: "char \<Rightarrow> nat" where
  "dv c = (case digit_value c of None \<Rightarrow> 0 | Some d \<Rightarrow> d)"

definition digits_value :: "nat \<Rightarrow> string \<Rightarrow> nat" where
  "digits_value R ds = foldl (\<lambda>acc c. acc * R + dv c) 0 ds"

text \<open>
  \<^verbatim>\<open>parseInt(input)\<close> with no radix: leading white space (of the ASCII range only)
  is skipped, one sign is read, a prefix \<^verbatim>\<open>0x\<close> selects radix 16, the longest run of
  digits is the value, and no digit at all gives \<^verbatim>\<open>NaN\<close>. The value is the exact
  integer: it is the number JavaScript returns up to \<open>2^53\<close>, which covers prefixes of
  up to 15 digits; beyond, JavaScript returns the nearest double.
\<close>

definition parseInt :: "string \<Rightarrow> js_number" where
  "parseInt input =
     (let s0 = dropWhile js_whitespace input;
          negative = (s0 \<noteq> [] \<and> hd s0 = CHR ''-'');
          s1 = (if s0 \<noteq> [] \<and> (hd s0 = CHR ''+'' \<or> hd s0 = CHR ''-'') then tl s0 else s0);
          hex = (take 2 s1 = ''0x'' \<or> take 2 s1 = ''0X'');
          s2 = (if hex then drop 2 s1 else s1);
          R = (if hex then 16 else 10);
          ds = takeWhile (in_radix R) s2
      in if ds = [] then NaN
         else Finite (of_int ((if negative then - 1 else 1) * int (digits_value R ds))))"

text \<open>\<^verbatim>\<open>a / b\<close> on two array lengths, and \<^verbatim>\<open>x * 100\<close>.\<close>

definition js_divide :: "nat \<Rightarrow> nat \<Rightarrow> js_number" where
  "js_divide a b =
     (if b = 0 then (if a = 0 then NaN else Infinity)
      else Finite (of_nat a / of_nat b))"

definition js_times :: "js_number \<Rightarrow> rat \<Rightarrow> js_number" where
  "js_times x k = (case x of Finite r \<Rightarrow> Finite (r * k) | Infinity \<Rightarrow> Infinity | NaN \<Rightarrow> NaN)"

text \<open>
  \<^verbatim>\<open>xs.slice(-steps)\<close>: the argument is negated and truncated to an integer (\<^verbatim>\<open>NaN\<close>
  becomes 0, and so does \<^verbatim>\<open>-0\<close>); a negative start counts from the end, cut at 0; a
  start beyond the length gives the empty array.
\<close>

definition slice_neg :: "js_number \<Rightarrow> 'a list \<Rightarrow> 'a list" where
  "slice_neg steps xs =
     (let len = int (length xs);
          rel = (case steps of
                   NaN \<Rightarrow> Some 0
                 | Infinity \<Rightarrow> None
                 | Finite r \<Rightarrow> Some (if 0 \<le> - r then \<lfloor>- r\<rfloor> else \<lceil>- r\<rceil>));
          k = (case rel of
                 None \<Rightarrow> 0
               | Some i \<Rightarrow> if i < 0 then max (len + i) 0 else min i len)
      in drop (nat k) xs)"

subsection \<open>Errors\<close>

text \<open>
  A database error object carries the PostgreSQL SQLSTATE in \<open>code\<close>. The exceptions
  the script raises itself are the first four constructors of \<open>exn\<close>; \<open>Pg\<close> is a
  database error thrown or rethrown.
\<close>

record pg_error =
  code :: string
  message :: string

datatype exn =
    MigrationsDirMissing string
  | NameRequired
  | FileNotFound string
  | Pg pg_error

subsection \<open>The migrations directory\<close>

text \<open>
  The content of a migration file is opaque SQL. It is kept as the sequence of its
  statements, each of which either makes a schema change (named by a tag) or raises.
  A directory is the list of its entries in the order \<^verbatim>\<open>readdirSync\<close> reports them;
  \<open>None\<close> is a directory that does not exist.
\<close>

datatype stmt = Change string | Raise pg_error

type_synonym sql_body = "stmt list"

record filesystem =
  dir :: "(string \<times> sql_body) list option"

definition migrationsDir :: string where
  "migrationsDir = ''supabase/migrations''"

definition join :: "string \<Rightarrow> string \<Rightarrow> string" where
  "join d f = d @ ''/'' @ f"

definition existsSync :: "filesystem \<Rightarrow> bool" where
  "existsSync fs = (dir fs \<noteq> None)"

definition readdirSync :: "filesystem \<Rightarrow> string list" where
  "readdirSync fs = (case dir fs of None \<Rightarrow> [] | Some es \<Rightarrow> map fst es)"

definition readFileSync :: "filesystem \<Rightarrow> string \<Rightarrow> exn + sql_body" where
  "readFileSync fs p =
     (case dir fs of
        None \<Rightarrow> Inl (FileNotFound p)
      | Some es \<Rightarrow>
          (case map_of (map (\<lambda>(f, b). (join migrationsDir f, b)) es) p of
             None \<Rightarrow> Inl (FileNotFound p)
           | Some b \<Rightarrow> Inr b))"

text \<open>
  \<^verbatim>\<open>writeFileSync(join(migrationsDir, f), content)\<close>, given \<open>f\<close>: an existing file of
  that name is replaced without notice, a new one is added; a missing directory raises.
  The directory is flat and \<open>join\<close> only concatenates: a name with a slash is taken to
  point into a directory that is not there and raises, where \<^verbatim>\<open>path.join\<close> would first
  normalise the path (\<^verbatim>\<open>a/../b\<close> names \<^verbatim>\<open>b\<close>); the limit of the file system on the length
  of a name is not modelled either.
\<close>

definition writeFileSync :: "filesystem \<Rightarrow> string \<Rightarrow> sql_body \<Rightarrow> exn + filesystem" where
  "writeFileSync fs f content =
     (case dir fs of
        None \<Rightarrow> Inl (FileNotFound (join migrationsDir f))
      | Some es \<Rightarrow>
          if CHR ''/'' \<in> set f then Inl (FileNotFound (join migrationsDir f))
          else if f \<in> set (map fst es)
            then Inr (fs\<lparr>dir := Some (map (\<lambda>(g, b). if g = f then (g, content) else (g, b)) es)\<rparr>)
            else Inr (fs\<lparr>dir := Some (es @ [(f, content)])\<rparr>))"

record migration =
  filename :: string
  path :: string
  name :: string
  timestamp :: js_number

text \<open>The object \<^verbatim>\<open>getMigrations\<close> builds for one file name.\<close>

definition migration_of :: "string \<Rightarrow> migration" where
  "migration_of file =
     \<lparr>filename = file,
      path = join migrationsDir file,
      name = replace_first ''.sql'' '''' file,
      timestamp = parseInt (split_first (CHR ''_'') file)\<rparr>"

text \<open>
  \<^verbatim>\<open>getMigrations\<close>: the names ending in \<^verbatim>\<open>.sql\<close>, sorted by \<^verbatim>\<open>Array.prototype.sort\<close>
  with no comparator (ascending string order), then mapped to objects.
\<close>

definition getMigrations :: "filesystem \<Rightarrow> exn + migration list" where
  "getMigrations fs =
     (if \<not> existsSync fs then Inl (MigrationsDirMissing migrationsDir)
      else Inr (map migration_of (sort (filter (\<lambda>file. endsWith file ''.sql'') (readdirSync fs)))))"

subsection \<open>Scaffolding a new migration\<close>

text \<open>
  \<^verbatim>\<open>new Date().toISOString().replace(/[-:T.]/g, '').slice(0, 14)\<close>, from the ISO text of
  the current time.
\<close>

definition compact_timestamp :: "string \<Rightarrow> string" where
  "compact_timestamp now = take 14 (filter (\<lambda>c. c \<notin> set ''-:T.'') now)"

definition create_filename :: "string \<Rightarrow> string \<Rightarrow> string" where
  "create_filename now n = compact_timestamp now @ ''_'' @ n @ ''.sql''"

text \<open>The template consists of SQL comments only: a body with no statement.\<close>

definition template :: sql_body where
  "template = []"

text \<open>
  \<^verbatim>\<open>create(name)\<close>: the argument is \<open>None\<close> when the command line gives no name; an
  absent or empty name is falsy and raises. \<open>now\<close> is the ISO text of the clock when
  the file name is built.
\<close>

definition create :: "string option \<Rightarrow> string \<Rightarrow> filesystem \<Rightarrow> exn + filesystem" where
  "create nm now fs =
     (case nm of
        None \<Rightarrow> Inl NameRequired
      | Some n \<Rightarrow>
          if n = [] then Inl NameRequired
          else writeFileSync fs (create_filename now n) template)"

subsection \<open>The SQL text of the ledger statements\<close>

definition sq :: char where
  "sq = CHR 0x27"

text \<open>
  The template literal of \<^verbatim>\<open>applyMigration\<close>, with its line breaks and indentation:
  the text before \<^verbatim>\<open>'${migration.name}'\<close>, and the text after
  \<^verbatim>\<open>'${migration.filename}'\<close>.
\<close>

definition insert_head :: string where
  "insert_head = ''\<newline>                    INSERT INTO schema_migrations (name, filename, applied_at)\<newline>                    VALUES (''"

definition insert_tail :: string where
  "insert_tail = '', NOW());\<newline>                ''"

definition insert_sql :: "string \<Rightarrow> string \<Rightarrow> string" where
  "insert_sql n f = insert_head @ [sq] @ n @ [sq] @ '', '' @ [sq] @ f @ [sq] @ insert_tail"

text \<open>The template literal of \<^verbatim>\<open>rollback\<close>.\<close>

definition delete_head :: string where
  "delete_head = ''DELETE FROM schema_migrations WHERE name = ''"

definition delete_sql :: "string \<Rightarrow> string" where
  "delete_sql n = delete_head @ [sq] @ n @ [sq] @ '';''"

subsection \<open>The database\<close>

text \<open>
  Modelled from the spec: the database connection. The script reaches the database only
  through \<^verbatim>\<open>client.rpc('exec_sql', {sql})\<close> and one \<^verbatim>\<open>select\<close> on the ledger table; the
  function \<^verbatim>\<open>exec_sql\<close> and the table are defined nowhere in the sources of the
  repository. The spec describes the target as a connection that executes SQL and takes
  part in transactions, with the ledger table
  \<^verbatim>\<open>schema_migrations(id, name unique not null, filename, applied_at default now())\<close>.
  The model is one PostgreSQL session: a committed store, at most one open transaction
  with its working copy, a failed statement aborting the open transaction (whose
  \<^verbatim>\<open>COMMIT\<close> then rolls back), and SQLSTATE codes for the errors. Rows are kept without
  their \<^verbatim>\<open>id\<close>; \<open>applied_at\<close> is a clock reading.
\<close>

record ledger_row =
  row_name :: string
  row_filename :: string
  applied_at :: nat

record store =
  schema :: "string list"
  ledger :: "ledger_row list option"

record transaction =
  work :: store
  aborted :: bool
  started :: nat

record database =
  committed :: store
  txn :: "transaction option"
  clock :: nat

definition undefined_table :: pg_error where
  "undefined_table = \<lparr>code = ''42P01'', message = ''relation schema_migrations does not exist''\<rparr>"

definition unique_violation :: pg_error where
  "unique_violation = \<lparr>code = ''23505'', message = ''duplicate key value violates unique constraint''\<rparr>"

definition syntax_error :: pg_error where
  "syntax_error = \<lparr>code = ''42601'', message = ''syntax error''\<rparr>"

definition in_failed_transaction :: pg_error where
  "in_failed_transaction = \<lparr>code = ''25P02'', message = ''current transaction is aborted''\<rparr>"

text \<open>
  A string literal of SQL, read after its opening quote: two quotes in a row stand for
  one quote character, a single quote ends the literal. The result is the literal and
  the text after the closing quote.
\<close>

fun scan_literal :: "string \<Rightarrow> (string \<times> string) option" where
  "scan_literal [] = None"
| "scan_literal [c] = (if c = sq then Some ([], []) else None)"
| "scan_literal (c # d # cs) =
     (if c = sq then
        (if d = sq then map_option (\<lambda>(lit, rest). (sq # lit, rest)) (scan_literal cs)
         else Some ([], d # cs))
      else map_option (\<lambda>(lit, rest). (c # lit, rest)) (scan_literal (d # cs)))"

text \<open>The text of a literal between its quotes: every quote character doubled.\<close>

definition sql_escape :: "string \<Rightarrow> string" where
  "sql_escape lit = concat (map (\<lambda>c. if c = sq then [sq, sq] else [c]) lit)"

text \<open>\<open>expect p s\<close> reads the fixed text \<open>p\<close> at the start of \<open>s\<close>.\<close>

definition expect :: "string \<Rightarrow> string \<Rightarrow> string option" where
  "expect p s = (if take (length p) s = p then Some (drop (length p) s) else None)"

datatype command =
    CBegin
  | CCommit
  | CRollback
  | CInsert string string
  | CDelete string

definition parse_insert :: "string \<Rightarrow> command option" where
  "parse_insert q =
     (case expect (insert_head @ [sq]) q of
        None \<Rightarrow> None
      | Some r1 \<Rightarrow>
          (case scan_literal r1 of
             None \<Rightarrow> None
           | Some (n, r2) \<Rightarrow>
               (case expect ('', '' @ [sq]) r2 of
                  None \<Rightarrow> None
                | Some r3 \<Rightarrow>
                    (case scan_literal r3 of
                       None \<Rightarrow> None
                     | Some (f, r4) \<Rightarrow> if r4 = insert_tail then Some (CInsert n f) else None))))"

definition parse_delete :: "string \<Rightarrow> command option" where
  "parse_delete q =
     (case expect (delete_head @ [sq]) q of
        None \<Rightarrow> None
      | Some r1 \<Rightarrow>
          (case scan_literal r1 of
             None \<Rightarrow> None
           | Some (n, r2) \<Rightarrow> if r2 = '';'' then Some (CDelete n) else None))"

text \<open>The statements the session understands: the five shapes the script sends.\<close>

definition parse_sql :: "string \<Rightarrow> command option" where
  "parse_sql q =
     (if q = ''BEGIN;'' then Some CBegin
      else if q = ''COMMIT;'' then Some CCommit
      else if q = ''ROLLBACK;'' then Some CRollback
      else (case parse_insert q of
              Some cmd \<Rightarrow> Some cmd
            | None \<Rightarrow> parse_delete q))"

text \<open>
  What \<^verbatim>\<open>exec_sql\<close> is given: SQL text that the script builds, or the content of a
  migration file.
\<close>

datatype sql = Text string | Script sql_body

text \<open>
  A migration body runs statement by statement and stops at the first one that raises;
  the changes made before it stay in the store it ran on.
\<close>

fun run_body :: "sql_body \<Rightarrow> store \<Rightarrow> pg_error option \<times> store" where
  "run_body [] s = (None, s)"
| "run_body (Change t # rest) s = run_body rest (s\<lparr>schema := schema s @ [t]\<rparr>)"
| "run_body (Raise e # rest) s = (Some e, s)"

text \<open>What a body does to the schema, and the error it ends with, if any.\<close>

fun changes :: "sql_body \<Rightarrow> string list" where
  "changes [] = []"
| "changes (Change t # rest) = t # changes rest"
| "changes (Raise e # rest) = []"

fun failure :: "sql_body \<Rightarrow> pg_error option" where
  "failure [] = None"
| "failure (Change t # rest) = failure rest"
| "failure (Raise e # rest) = Some e"

definition ledger_insert :: "string \<Rightarrow> string \<Rightarrow> nat \<Rightarrow> store \<Rightarrow> pg_error option \<times> store" where
  "ledger_insert n f t s =
     (case ledger s of
        None \<Rightarrow> (Some undefined_table, s)
      | Some rows \<Rightarrow>
          if n \<in> set (map row_name rows) then (Some unique_violation, s)
          else (None, s\<lparr>ledger := Some (rows @ [\<lparr>row_name = n, row_filename = f, applied_at = t\<rparr>])\<rparr>))"

definition ledger_delete :: "string \<Rightarrow> store \<Rightarrow> pg_error option \<times> store" where
  "ledger_delete n s =
     (case ledger s of
        None \<Rightarrow> (Some undefined_table, s)
      | Some rows \<Rightarrow> (None, s\<lparr>ledger := Some (filter (\<lambda>r. row_name r \<noteq> n) rows)\<rparr>))"

text \<open>
  One statement \<open>f\<close>, given the time \<^verbatim>\<open>NOW()\<close> reads. Outside a transaction it commits
  by itself, and a failure leaves the store as it was. Inside a transaction it works on
  the working copy; a failure marks the transaction aborted, and an aborted transaction
  refuses every further statement.
\<close>

definition run_statement ::
  "(nat \<Rightarrow> store \<Rightarrow> pg_error option \<times> store) \<Rightarrow> database \<Rightarrow> pg_error option \<times> database" where
  "run_statement f d =
     (case txn d of
        None \<Rightarrow>
          (case f (clock d) (committed d) of
             (None, s') \<Rightarrow> (None, d\<lparr>committed := s', clock := Suc (clock d)\<rparr>)
           | (Some e, s') \<Rightarrow> (Some e, d\<lparr>clock := Suc (clock d)\<rparr>))
      | Some t \<Rightarrow>
          if aborted t then (Some in_failed_transaction, d)
          else
            (case f (started t) (work t) of
               (None, s') \<Rightarrow> (None, d\<lparr>txn := Some (t\<lparr>work := s'\<rparr>)\<rparr>)
             | (Some e, s') \<Rightarrow> (Some e, d\<lparr>txn := Some (t\<lparr>work := s', aborted := True\<rparr>)\<rparr>)))"

definition run_command :: "command \<Rightarrow> database \<Rightarrow> pg_error option \<times> database" where
  "run_command cmd d =
     (case cmd of
        CBegin \<Rightarrow>
          (case txn d of
             None \<Rightarrow>
               (None, d\<lparr>txn := Some \<lparr>work = committed d, aborted = False, started = clock d\<rparr>,
                         clock := Suc (clock d)\<rparr>)
           | Some t \<Rightarrow> (None, d))
      | CCommit \<Rightarrow>
          (case txn d of
             None \<Rightarrow> (None, d)
           | Some t \<Rightarrow>
               (None, d\<lparr>committed := (if aborted t then committed d else work t), txn := None\<rparr>))
      | CRollback \<Rightarrow> (None, d\<lparr>txn := None\<rparr>)
      | CInsert n f \<Rightarrow> run_statement (ledger_insert n f) d
      | CDelete n \<Rightarrow> run_statement (\<lambda>t. ledger_delete n) d)"

definition exec_sql :: "sql \<Rightarrow> database \<Rightarrow> pg_error option \<times> database" where
  "exec_sql q d =
     (case q of
        Script body \<Rightarrow> run_statement (\<lambda>t. run_body body) d
      | Text s \<Rightarrow>
          (case parse_sql s of
             None \<Rightarrow> run_statement (\<lambda>t st. (Some syntax_error, st)) d
           | Some cmd \<Rightarrow> run_command cmd d))"

text \<open>
  \<^verbatim>\<open>from('schema_migrations').select('*').order('applied_at', {ascending: true})\<close>: the
  pair \<^verbatim>\<open>{data, error}\<close>. Rows with the same \<open>applied_at\<close> keep their insertion order.
\<close>

definition select_ledger :: "database \<Rightarrow> ledger_row list option \<times> pg_error option" where
  "select_ledger d =
     (let visible = (case txn d of None \<Rightarrow> Some (committed d)
                     | Some t \<Rightarrow> if aborted t then None else Some (work t))
      in case visible of
           None \<Rightarrow> (None, Some in_failed_transaction)
         | Some s \<Rightarrow>
             (case ledger s of
                None \<Rightarrow> (None, Some undefined_table)
              | Some rows \<Rightarrow> (Some (sort_key applied_at rows), None)))"

subsection \<open>The client\<close>

text \<open>
  The client holds the session. Each call takes the next outcome of \<open>script\<close>, the
  behaviour of the transport: the call is delivered to the database, or the promise is
  rejected and the database never sees it. An empty script delivers every call.
  \<open>sent\<close> records the SQL passed to \<^verbatim>\<open>rpc\<close>, in order.
\<close>

datatype outcome = Deliver | Reject pg_error

record client =
  db :: database
  script :: "outcome list"
  sent :: "sql list"

text \<open>\<^verbatim>\<open>await client.rpc('exec_sql', {sql: q})\<close>: \<open>Inl\<close> is the exception of a rejected
  promise, \<open>Inr\<close> the field \<^verbatim>\<open>error\<close> of the resolved value.\<close>

definition rpc :: "sql \<Rightarrow> client \<Rightarrow> (exn + pg_error option) \<times> client" where
  "rpc q c =
     (let c1 = c\<lparr>script := tl (script c), sent := sent c @ [q]\<rparr>
      in case script c of
           Reject e # rest \<Rightarrow> (Inl (Pg e), c1)
         | _ \<Rightarrow> (case exec_sql q (db c) of (err, d') \<Rightarrow> (Inr err, c1\<lparr>db := d'\<rparr>)))"

definition select_all ::
  "client \<Rightarrow> (exn + ledger_row list option \<times> pg_error option) \<times> client" where
  "select_all c =
     (let c1 = c\<lparr>script := tl (script c)\<rparr>
      in case script c of
           Reject e # rest \<Rightarrow> (Inl (Pg e), c1)
         | _ \<Rightarrow> (Inr (select_ledger (db c)), c1))"

text \<open>The next \<open>k\<close> calls are delivered (a script that has run out delivers).\<close>

definition delivers :: "nat \<Rightarrow> client \<Rightarrow> bool" where
  "delivers k c = list_all (\<lambda>out. out = Deliver) (take k (script c))"

subsection \<open>Reading the ledger and planning\<close>

text \<open>The \<^verbatim>\<open>try\<close> block of \<^verbatim>\<open>getAppliedMigrations\<close>, on the outcome of the query.\<close>

definition read_applied ::
  "exn + ledger_row list option \<times> pg_error option \<Rightarrow> exn + ledger_row list" where
  "read_applied r =
     (case r of
        Inl e \<Rightarrow> Inl e
      | Inr (data, Some error) \<Rightarrow>
          if code error = ''42P01'' then Inr [] else Inl (Pg error)
      | Inr (data, None) \<Rightarrow> Inr (case data of None \<Rightarrow> [] | Some rows \<Rightarrow> rows))"

text \<open>\<^verbatim>\<open>getAppliedMigrations\<close>: the \<^verbatim>\<open>catch\<close> block warns and returns the empty array.\<close>

definition getAppliedMigrations :: "client \<Rightarrow> ledger_row list \<times> client" where
  "getAppliedMigrations c =
     (case select_all c of
        (r, c') \<Rightarrow> (case read_applied r of Inl e \<Rightarrow> ([], c') | Inr rows \<Rightarrow> (rows, c')))"

definition getPendingMigrations ::
  "filesystem \<Rightarrow> client \<Rightarrow> (exn + migration list) \<times> client" where
  "getPendingMigrations fs c =
     (case getMigrations fs of
        Inl e \<Rightarrow> (Inl e, c)
      | Inr allMigrations \<Rightarrow>
          (case getAppliedMigrations c of
             (appliedMigrations, c') \<Rightarrow>
               (let appliedNames = map row_name appliedMigrations
                in (Inr (filter (\<lambda>m. name m \<notin> set appliedNames) allMigrations), c'))))"

subsection \<open>Applying\<close>

text \<open>The \<^verbatim>\<open>catch\<close> block of \<^verbatim>\<open>applyMigration\<close> and of the loop of \<^verbatim>\<open>rollback\<close>.\<close>

definition rollback_and_fail :: "client \<Rightarrow> (exn + bool) \<times> client" where
  "rollback_and_fail c =
     (case rpc (Text ''ROLLBACK;'') c of
        (Inl e, c') \<Rightarrow> (Inl e, c')
      | (Inr err, c') \<Rightarrow> (Inr False, c'))"

text \<open>
  \<^verbatim>\<open>applyMigration\<close>: the file is read before the \<^verbatim>\<open>try\<close>; inside it, only the
  \<^verbatim>\<open>error\<close> of the migration's own SQL is looked at, the results of the other three
  calls are dropped; any exception goes to the \<^verbatim>\<open>catch\<close> block.
\<close>

definition applyMigration :: "filesystem \<Rightarrow> migration \<Rightarrow> client \<Rightarrow> (exn + bool) \<times> client" where
  "applyMigration fs m c =
     (case readFileSync fs (path m) of
        Inl e \<Rightarrow> (Inl e, c)
      | Inr body \<Rightarrow>
          (case rpc (Text ''BEGIN;'') c of
             (Inl e, c1) \<Rightarrow> rollback_and_fail c1
           | (Inr r1, c1) \<Rightarrow>
               (case rpc (Script body) c1 of
                  (Inl e, c2) \<Rightarrow> rollback_and_fail c2
                | (Inr (Some error), c2) \<Rightarrow> rollback_and_fail c2
                | (Inr None, c2) \<Rightarrow>
                    (case rpc (Text (insert_sql (name m) (filename m))) c2 of
                       (Inl e, c3) \<Rightarrow> rollback_and_fail c3
                     | (Inr r3, c3) \<Rightarrow>
                         (case rpc (Text ''COMMIT;'') c3 of
                            (Inl e, c4) \<Rightarrow> rollback_and_fail c4
                          | (Inr r4, c4) \<Rightarrow> (Inr True, c4))))))"

text \<open>The SQL \<^verbatim>\<open>applyMigration\<close> reads for a migration (empty when the file cannot be read).\<close>

definition body_of :: "filesystem \<Rightarrow> migration \<Rightarrow> sql_body" where
  "body_of fs m = (case readFileSync fs (path m) of Inl e \<Rightarrow> [] | Inr body \<Rightarrow> body)"

text \<open>The \<^verbatim>\<open>for\<close> loop of \<^verbatim>\<open>runPending\<close>.\<close>

fun apply_each :: "filesystem \<Rightarrow> migration list \<Rightarrow> client \<Rightarrow> (exn + bool) \<times> client" where
  "apply_each fs [] c = (Inr True, c)"
| "apply_each fs (m # ms) c =
     (case applyMigration fs m c of
        (Inl e, c') \<Rightarrow> (Inl e, c')
      | (Inr success, c') \<Rightarrow> if \<not> success then (Inr False, c') else apply_each fs ms c')"

definition runPending :: "filesystem \<Rightarrow> client \<Rightarrow> (exn + bool) \<times> client" where
  "runPending fs c =
     (case getPendingMigrations fs c of
        (Inl e, c') \<Rightarrow> (Inl e, c')
      | (Inr pendingMigrations, c') \<Rightarrow>
          if length pendingMigrations = 0 then (Inr True, c')
          else apply_each fs pendingMigrations c')"

subsection \<open>Rolling back\<close>

text \<open>
  One round of the loop of \<^verbatim>\<open>rollback\<close>: \<open>Inr True\<close> goes on to the next record,
  \<open>Inr False\<close> is the \<^verbatim>\<open>return false\<close> of the \<^verbatim>\<open>catch\<close> block. No result of a call is
  looked at.
\<close>

definition revert_one :: "ledger_row \<Rightarrow> client \<Rightarrow> (exn + bool) \<times> client" where
  "revert_one r c =
     (case rpc (Text ''BEGIN;'') c of
        (Inl e, c1) \<Rightarrow> rollback_and_fail c1
      | (Inr r1, c1) \<Rightarrow>
          (case rpc (Text (delete_sql (row_name r))) c1 of
             (Inl e, c2) \<Rightarrow> rollback_and_fail c2
           | (Inr r2, c2) \<Rightarrow>
               (case rpc (Text ''COMMIT;'') c2 of
                  (Inl e, c3) \<Rightarrow> rollback_and_fail c3
                | (Inr r3, c3) \<Rightarrow> (Inr True, c3))))"

fun revert_each :: "ledger_row list \<Rightarrow> client \<Rightarrow> (exn + bool) \<times> client" where
  "revert_each [] c = (Inr True, c)"
| "revert_each (r # rs) c =
     (case revert_one r c of
        (Inl e, c') \<Rightarrow> (Inl e, c')
      | (Inr continue, c') \<Rightarrow> if \<not> continue then (Inr False, c') else revert_each rs c')"

definition migrationsToRollback :: "js_number \<Rightarrow> ledger_row list \<Rightarrow> ledger_row list" where
  "migrationsToRollback steps appliedMigrations = rev (slice_neg steps appliedMigrations)"

definition rollback :: "js_number \<Rightarrow> client \<Rightarrow> (exn + bool) \<times> client" where
  "rollback steps c =
     (case getAppliedMigrations c of
        (appliedMigrations, c') \<Rightarrow>
          if length appliedMigrations = 0 then (Inr True, c')
          else revert_each (migrationsToRollback steps appliedMigrations) c')"

text \<open>
  The command \<^verbatim>\<open>down [steps]\<close> of \<^verbatim>\<open>main\<close>:
  \<^verbatim>\<open>args[1] ? parseInt(args[1]) : 1\<close>, where an absent or empty argument is falsy.
\<close>

definition rollbackSteps :: "string option \<Rightarrow> js_number" where
  "rollbackSteps arg =
     (case arg of None \<Rightarrow> Finite 1 | Some a \<Rightarrow> if a = [] then Finite 1 else parseInt a)"

definition down :: "string option \<Rightarrow> client \<Rightarrow> (exn + bool) \<times> client" where
  "down arg c = rollback (rollbackSteps arg) c"

subsection \<open>Status\<close>

text \<open>
  What \<^verbatim>\<open>status\<close> prints: one line per migration of the catalog (file name, applied or
  not, the \<open>applied_at\<close> of its record), the three counts, and the rate
  \<^verbatim>\<open>(appliedMigrations.length / allMigrations.length) * 100\<close> before it is formatted.
\<close>

record status_report =
  lines :: "(string \<times> bool \<times> nat option) list"
  total :: nat
  applied_count :: nat
  pending_count :: nat
  rate :: js_number

definition status :: "filesystem \<Rightarrow> client \<Rightarrow> (exn + status_report) \<times> client" where
  "status fs c =
     (case getMigrations fs of
        Inl e \<Rightarrow> (Inl e, c)
      | Inr allMigrations \<Rightarrow>
          (case getAppliedMigrations c of
             (appliedMigrations, c1) \<Rightarrow>
               (case getPendingMigrations fs c1 of
                  (Inl e, c2) \<Rightarrow> (Inl e, c2)
                | (Inr pendingMigrations, c2) \<Rightarrow>
                    (let appliedNames = map row_name appliedMigrations
                     in (Inr \<lparr>lines =
                                 map (\<lambda>m. (filename m, name m \<in> set appliedNames,
                                            map_option applied_at
                                              (find (\<lambda>r. row_name r = name m) appliedMigrations)))
                                     allMigrations,
                               total = length allMigrations,
                               applied_count = length appliedMigrations,
                               pending_count = length pendingMigrations,
                               rate = js_times (js_divide (length appliedMigrations)
                                                          (length allMigrations)) 100\<rparr>,
                         c2)))))"

subsection \<open>Example inputs\<close>


definition c_empty :: client where
  "c_empty = \<lparr>db = \<lparr>committed = \<lparr>schema = [], ledger = Some []\<rparr>, txn = None, clock = 0\<rparr>,
              script = [], sent = []\<rparr>"

text \<open>The directory of the scenario with three migrations, the second failing.\<close>

definition fs_abc :: filesystem where
  "fs_abc = \<lparr>dir = Some [(''3_c.sql'', [Change ''c'']),
                          (''2_b.sql'', [Change ''b1'', Raise syntax_error, Change ''b2'']),
                          (''1_a.sql'', [Change ''a''])]\<rparr>"

text \<open>A client on a database where the migration \<^verbatim>\<open>1_a\<close> is applied, a transport
  error, and the directory holding that migration.\<close>

definition c_applied :: client where
  "c_applied = \<lparr>db = \<lparr>committed = \<lparr>schema = [''a''],
                  ledger = Some [\<lparr>row_name = ''1_a'', row_filename = ''1_a.sql'', applied_at = 0\<rparr>]\<rparr>,
                txn = None, clock = 1\<rparr>,
              script = [], sent = []\<rparr>"

definition connection_failure :: pg_error where
  "connection_failure = \<lparr>code = ''08006'', message = ''connection failure''\<rparr>"

definition fs_a :: filesystem where
  "fs_a = \<lparr>dir = Some [(''1_a.sql'', [Change ''a''])]\<rparr>"

text \<open>A client on a database where three migrations are applied, one after the other.\<close>

definition c_abc :: client where
  "c_abc = \<lparr>db = \<lparr>committed = \<lparr>schema = [''a'', ''b'', ''c''],
                ledger = Some [\<lparr>row_name = ''1_a'', row_filename = ''1_a.sql'', applied_at = 1\<rparr>,
                               \<lparr>row_name = ''2_b'', row_filename = ''2_b.sql'', applied_at = 2\<rparr>,
                               \<lparr>row_name = ''3_c'', row_filename = ''3_c.sql'', applied_at = 3\<rparr>]\<rparr>,
              txn = None, clock = 4\<rparr>,
            script = [], sent = []\<rparr>"

text \<open>A client on a database where \<^verbatim>\<open>init\<close> has not run, a directory of two migrations
  that both succeed, and a client on a database with a ledger record whose name holds a
  quote character.\<close>

definition c_uninit :: client where
  "c_uninit = \<lparr>db = \<lparr>committed = \<lparr>schema = [], ledger = None\<rparr>, txn = None, clock = 0\<rparr>,
               script = [], sent = []\<rparr>"

definition fs_ac :: filesystem where
  "fs_ac = \<lparr>dir = Some [(''3_c.sql'', [Change ''c'']), (''1_a.sql'', [Change ''a''])]\<rparr>"

definition c_quoted :: client where
  "c_quoted = \<lparr>db = \<lparr>committed = \<lparr>schema = [''a'', ''b''],
                ledger = Some [\<lparr>row_name = ''1_a'', row_filename = ''1_a.sql'', applied_at = 1\<rparr>,
                               \<lparr>row_name = ''2_it's'', row_filename = ''2_it's.sql'', applied_at = 2\<rparr>]\<rparr>,
              txn = None, clock = 3\<rparr>,
            script = [], sent = []\<rparr>"

section \<open>Properties\<close>

subsection \<open>The catalog\<close>

lemma filename_migration_of: "filename (migration_of f) = f"
  by (simp add: migration_of_def)

lemma filenames_catalog: "map (filename \<circ> migration_of) fs = fs"
  by (induction fs) (simp_all add: filename_migration_of)

lemma getMigrations_filenames:
  "getMigrations fs = Inr ms \<Longrightarrow>
     map filename ms = sort (filter (\<lambda>file. endsWith file ''.sql'') (readdirSync fs))"
  by (auto simp: getMigrations_def filenames_catalog split: if_splits)

lemma lex_le_prefix:
  "length p = length q \<Longrightarrow> p @ x \<le> q @ y \<Longrightarrow> p \<le> (q :: string)"
  by (induction p q rule: list_induct2) auto


lemma decimal_digit: "in_radix 10 c \<Longrightarrow> 48 \<le> (of_char c :: nat) \<and> (of_char c :: nat) \<le> 57 \<and> digit_value c = Some (of_char c - 48)"
  by (auto simp: in_radix_def digit_value_def Let_def split: if_splits option.splits)

lemma digits_value_acc:
  "foldl (\<lambda>acc c. acc * R + dv c) a ds = a * R ^ length ds + foldl (\<lambda>acc c. acc * R + dv c) 0 ds"
proof (induction ds arbitrary: a)
  case Nil
  then show ?case by simp
next
  case (Cons c cs)
  let ?f = "\<lambda>acc c. acc * R + dv c"
  have 1: "foldl ?f (a * R + dv c) cs = (a * R + dv c) * R ^ length cs + foldl ?f 0 cs"
    by (rule Cons.IH)
  have 2: "foldl ?f (dv c) cs = dv c * R ^ length cs + foldl ?f 0 cs"
    by (rule Cons.IH)
  have 3: "foldl ?f a (c # cs) = foldl ?f (a * R + dv c) cs" by simp
  have 4: "foldl ?f 0 (c # cs) = foldl ?f (dv c) cs" by simp
  show ?case unfolding 3 4 1 2 by (simp add: algebra_simps)
qed

lemma digits_value_Cons:
  "digits_value R (c # cs) = dv c * R ^ length cs + digits_value R cs"
  using digits_value_acc [of R "dv c" cs]
  by (simp add: digits_value_def dv_def)

lemma digits_value_bound:
  "\<forall>c\<in>set ds. in_radix 10 c \<Longrightarrow> digits_value 10 ds < 10 ^ length ds"
proof (induction ds)
  case Nil
  then show ?case by (simp add: digits_value_def)
next
  case (Cons c cs)
  from Cons.prems have "in_radix 10 c" by simp
  then have d: "dv c \<le> 9"
    by (auto simp: in_radix_def dv_def split: option.splits)
  have "digits_value 10 cs < 10 ^ length cs" using Cons by simp
  moreover have "dv c * 10 ^ length cs \<le> 9 * 10 ^ length cs"
    using d by (rule mult_le_mono1)
  ultimately have "dv c * 10 ^ length cs + digits_value 10 cs < 10 * 10 ^ length cs"
    by linarith
  then show ?case by (simp add: digits_value_Cons)
qed

lemma digits_lex_le:
  "length p = length q \<Longrightarrow> \<forall>c\<in>set p. in_radix 10 c \<Longrightarrow> \<forall>c\<in>set q. in_radix 10 c \<Longrightarrow>
     p \<le> q \<Longrightarrow> digits_value 10 p \<le> digits_value 10 q"
proof (induction p q rule: list_induct2)
  case Nil
  then show ?case by simp
next
  case (Cons a p b q)
  have da: "dv a = of_char a - 48" "48 \<le> (of_char a::nat)"
    using decimal_digit [of a] Cons.prems(1) by (simp_all add: dv_def)
  have db: "dv b = of_char b - 48" "48 \<le> (of_char b::nat)"
    using decimal_digit [of b] Cons.prems(2) by (simp_all add: dv_def)
  from Cons.prems(3) consider "a < b" | "a = b" "p \<le> q" by auto
  then show ?case
  proof cases
    case 1
    then have "Suc (dv a) \<le> dv b" using da db by (simp add: less_char_def)
    then have "Suc (dv a) * 10 ^ length p \<le> dv b * 10 ^ length p"
      by (rule mult_le_mono1)
    moreover have "digits_value 10 p < 10 ^ length p"
      using Cons.prems(1) by (simp add: digits_value_bound)
    ultimately have "dv a * 10 ^ length p + digits_value 10 p \<le> dv b * 10 ^ length p"
      by simp
    then show ?thesis
      using Cons.hyps by (simp add: digits_value_Cons)
  next
    case 2
    then have "digits_value 10 p \<le> digits_value 10 q" using Cons by simp
    with 2 show ?thesis using Cons.hyps by (simp add: digits_value_Cons)
  qed
qed

lemma parseInt_digits:
  assumes "p \<noteq> []" "\<forall>c\<in>set p. in_radix 10 c"
  shows "parseInt p = Finite (of_nat (digits_value 10 p))"
proof -
  obtain a r where p: "p = a # r" using assms(1) by (cases p) auto
  have a: "in_radix 10 a" using assms(2) p by simp
  then have ra: "48 \<le> (of_char a :: nat)" "(of_char a :: nat) \<le> 57" using decimal_digit by auto
  have ws: "\<not> js_whitespace a" using ra by (auto simp: js_whitespace_def)
  have sign: "hd p \<noteq> CHR ''+''" "hd p \<noteq> CHR ''-''" using ra p by auto
  have x: "\<not> in_radix 10 (CHR ''x'')" "\<not> in_radix 10 (CHR ''X'')"
    by (simp_all add: in_radix_def digit_value_def)
  have hex: "take 2 p \<noteq> ''0x''" "take 2 p \<noteq> ''0X''"
    using assms(2) x p by (cases r; auto)+
  have tw: "takeWhile (in_radix 10) p = p" using assms(2) by (simp add: takeWhile_eq_all_conv)
  have dw: "dropWhile js_whitespace p = p" using p ws by simp
  show ?thesis
    unfolding parseInt_def Let_def dw
    by (simp only: sign hex tw assms(1) if_False simp_thms) simp
qed

lemma timestamp_fixed_width:
  assumes "p \<noteq> []" "\<forall>c\<in>set p. in_radix 10 c"
  shows "timestamp (migration_of (p @ ''_'' @ r)) = Finite (of_nat (digits_value 10 p))"
proof -
  have "\<not> in_radix 10 (CHR ''_'')" by (simp add: in_radix_def digit_value_def)
  then have "\<forall>c\<in>set p. c \<noteq> CHR ''_''" using assms(2) by blast
  then have "split_first (CHR ''_'') (p @ ''_'' @ r) = p"
    by (simp add: split_first_def)
  then show ?thesis by (simp add: migration_of_def parseInt_digits assms)
qed

subsection \<open>SQL text and what the session reads from it\<close>

lemma expect_append: "expect p (p @ r) = Some r"
  by (simp add: expect_def)

lemma expect_mismatch: "p \<noteq> [] \<Longrightarrow> s \<noteq> [] \<Longrightarrow> hd p \<noteq> hd s \<Longrightarrow> expect p s = None"
  by (cases p; cases s) (auto simp: expect_def)

lemma scan_literal_step:
  "c \<noteq> sq \<Longrightarrow> s \<noteq> [] \<Longrightarrow>
     scan_literal (c # s) = map_option (\<lambda>(lit, rest). (c # lit, rest)) (scan_literal s)"
  by (cases s) auto

lemma scan_literal_clean:
  "sq \<notin> set n \<Longrightarrow> r = [] \<or> hd r \<noteq> sq \<Longrightarrow> scan_literal (n @ sq # r) = Some (n, r)"
proof (induction n)
  case Nil
  then show ?case by (cases r) auto
next
  case (Cons c n)
  then have "c \<noteq> sq" by auto
  then have "scan_literal (c # (n @ sq # r))
               = map_option (\<lambda>(lit, rest). (c # lit, rest)) (scan_literal (n @ sq # r))"
    by (rule scan_literal_step) simp
  then show ?case using Cons by simp
qed

lemma scan_literal_sound:
  "scan_literal s = Some (lit, r) \<Longrightarrow> s = sql_escape lit @ sq # r"
proof (induction s arbitrary: lit r rule: scan_literal.induct)
  case 1
  then show ?case by simp
next
  case (2 c)
  then show ?case by (auto simp: sql_escape_def split: if_splits)
next
  case (3 c d cs)
  then show ?case by (auto simp: sql_escape_def split: if_splits)
qed

lemma quoted_name_differs:
  "0 < j \<or> sq \<in> set n \<Longrightarrow> X = [] \<or> hd X \<noteq> sq \<Longrightarrow>
     n @ sq # X \<noteq> replicate j sq @ sql_escape n @ sq # r"
proof (induction n arbitrary: j)
  case Nil
  then have "0 < j" by simp
  then obtain k where "j = Suc k" by (cases j) auto
  with Nil show ?case by (cases k) (auto simp: sql_escape_def)
next
  case (Cons c n)
  show ?case
  proof (cases "c = sq")
    case True
    have "n @ sq # X \<noteq> replicate (Suc j) sq @ sql_escape n @ sq # r"
      using Cons.IH [of "Suc j"] Cons.prems(2) by simp
    then show ?thesis using True
      by (cases j) (auto simp: sql_escape_def replicate_app_Cons_same)
  next
    case False
    show ?thesis
    proof (cases j)
      case 0
      then have "sq \<in> set n" using Cons.prems(1) False by auto
      then have "n @ sq # X \<noteq> replicate 0 sq @ sql_escape n @ sq # r"
        using Cons.IH [of 0] Cons.prems(2) by blast
      then show ?thesis using 0 False by (simp add: sql_escape_def)
    next
      case (Suc k)
      then show ?thesis using False by simp
    qed
  qed
qed

lemma scan_literal_quoted:
  assumes "sq \<in> set n" "X = [] \<or> hd X \<noteq> sq"
  shows "scan_literal (n @ sq # X) \<noteq> Some (n, r)"
proof
  assume "scan_literal (n @ sq # X) = Some (n, r)"
  then have "n @ sq # X = sql_escape n @ sq # r" by (rule scan_literal_sound)
  then show False using quoted_name_differs [of 0 n X r] assms by simp
qed

lemma parse_sql_begin: "parse_sql ''BEGIN;'' = Some CBegin"
  by (simp add: parse_sql_def)
lemma parse_sql_commit: "parse_sql ''COMMIT;'' = Some CCommit"
  by (simp add: parse_sql_def)
lemma parse_sql_rollback: "parse_sql ''ROLLBACK;'' = Some CRollback"
  by (simp add: parse_sql_def)

lemma insert_sql_not_control:
  "insert_sql n f \<noteq> ''BEGIN;''" "insert_sql n f \<noteq> ''COMMIT;''" "insert_sql n f \<noteq> ''ROLLBACK;''"
  by (simp_all add: insert_sql_def insert_head_def)

lemma delete_sql_not_control:
  "delete_sql n \<noteq> ''BEGIN;''" "delete_sql n \<noteq> ''COMMIT;''" "delete_sql n \<noteq> ''ROLLBACK;''"
  by (simp_all add: delete_sql_def delete_head_def)

lemma parse_insert_delete_sql: "parse_insert (delete_sql n) = None"
proof -
  have "expect (insert_head @ [sq]) (delete_sql n) = None"
    by (rule expect_mismatch) (simp_all add: insert_head_def delete_sql_def delete_head_def)
  then show ?thesis by (simp add: parse_insert_def)
qed

lemma parse_insert_sql:
  "parse_insert (insert_sql n f) =
     (case scan_literal (n @ sq # '', '' @ sq # f @ sq # insert_tail) of
        None \<Rightarrow> None
      | Some (n', r2) \<Rightarrow>
          (case expect ('', '' @ [sq]) r2 of
             None \<Rightarrow> None
           | Some r3 \<Rightarrow>
               (case scan_literal r3 of
                  None \<Rightarrow> None
                | Some (f', r4) \<Rightarrow> if r4 = insert_tail then Some (CInsert n' f') else None)))"
proof -
  have "expect (insert_head @ [sq]) (insert_sql n f) = Some (n @ sq # '', '' @ sq # f @ sq # insert_tail)"
    using expect_append [of "insert_head @ [sq]"] by (simp add: insert_sql_def)
  then show ?thesis by (simp add: parse_insert_def)
qed

lemma parse_delete_sql:
  "parse_delete (delete_sql n) =
     (case scan_literal (n @ sq # '';'') of
        None \<Rightarrow> None
      | Some (n', r2) \<Rightarrow> if r2 = '';'' then Some (CDelete n') else None)"
proof -
  have "expect (delete_head @ [sq]) (delete_sql n) = Some (n @ sq # '';'')"
    using expect_append [of "delete_head @ [sq]"] by (simp add: delete_sql_def)
  then show ?thesis by (simp add: parse_delete_def)
qed

lemma parse_sql_insert:
  assumes "sq \<notin> set n" "sq \<notin> set f"
  shows "parse_sql (insert_sql n f) = Some (CInsert n f)"
proof -
  have 1: "scan_literal (n @ sq # '', '' @ sq # f @ sq # insert_tail)
             = Some (n, '', '' @ sq # f @ sq # insert_tail)"
    using scan_literal_clean [OF assms(1), of "'', '' @ sq # f @ sq # insert_tail"]
    by (simp add: sq_def)
  have 2: "expect ('', '' @ [sq]) ('', '' @ sq # f @ sq # insert_tail) = Some (f @ sq # insert_tail)"
    using expect_append [of "'', '' @ [sq]"] by simp
  have 3: "scan_literal (f @ sq # insert_tail) = Some (f, insert_tail)"
    using scan_literal_clean [OF assms(2), of insert_tail] by (simp add: insert_tail_def sq_def)
  have "parse_insert (insert_sql n f) = Some (CInsert n f)"
    using 1 2 3 by (simp add: parse_insert_sql)
  then show ?thesis by (simp add: parse_sql_def insert_sql_not_control)
qed

lemma parse_sql_delete:
  assumes "sq \<notin> set n"
  shows "parse_sql (delete_sql n) = Some (CDelete n)"
proof -
  have "scan_literal (n @ sq # '';'') = Some (n, '';'')"
    using scan_literal_clean [OF assms, of "'';''"] by (simp add: sq_def)
  then have "parse_delete (delete_sql n) = Some (CDelete n)"
    by (simp add: parse_delete_sql)
  then show ?thesis
    by (simp add: parse_sql_def delete_sql_not_control parse_insert_delete_sql)
qed

subsection \<open>Catalog order, scaffolding and the text of the ledger statements\<close>

lemma sorted_pair:
  "sorted xs \<Longrightarrow> i < j \<Longrightarrow> j < length xs \<Longrightarrow> xs ! i \<le> xs ! j"
  by (simp add: sorted_iff_nth_mono)

text \<open>
  Claim C4, as amended. \<^verbatim>\<open>getMigrations\<close> returns the catalog in ascending order of
  file name, the order of strings that \<^verbatim>\<open>sort()\<close> uses; the numeric prefix is computed
  but plays no part in the order. For two entries whose prefixes are decimal digits of
  the same number of digits, the earlier entry has the smaller or equal version, so for
  prefixes of one width the catalog is ascending by version and equal versions are in
  file name order.
\<close>

theorem getMigrations_order:
  assumes "getMigrations fs = Inr ms"
  shows "sorted (map filename ms) \<and>
         (\<forall>i j p q r s.
            i < j \<and> j < length ms \<and>
            filename (ms ! i) = p @ ''_'' @ r \<and> filename (ms ! j) = q @ ''_'' @ s \<and>
            p \<noteq> [] \<and> length p = length q \<and>
            (\<forall>c\<in>set p. in_radix 10 c) \<and> (\<forall>c\<in>set q. in_radix 10 c) \<longrightarrow>
            timestamp (ms ! i) = Finite (of_nat (digits_value 10 p)) \<and>
            timestamp (ms ! j) = Finite (of_nat (digits_value 10 q)) \<and>
            digits_value 10 p \<le> digits_value 10 q)"
proof (intro conjI allI impI)
  show sorted: "sorted (map filename ms)"
    using assms by (simp add: getMigrations_filenames)
  fix i j p q r s
  assume h: "i < j \<and> j < length ms \<and>
            filename (ms ! i) = p @ ''_'' @ r \<and> filename (ms ! j) = q @ ''_'' @ s \<and>
            p \<noteq> [] \<and> length p = length q \<and>
            (\<forall>c\<in>set p. in_radix 10 c) \<and> (\<forall>c\<in>set q. in_radix 10 c)"
  have ms: "ms = map migration_of (map filename ms)"
    using assms by (auto simp: getMigrations_def filename_migration_of split: if_splits)
  have mi: "ms ! i = migration_of (p @ ''_'' @ r)"
    using h ms by (metis (no_types, lifting) length_map nth_map order.strict_trans)
  have mj: "ms ! j = migration_of (q @ ''_'' @ s)"
    using h ms by (metis (no_types, lifting) length_map nth_map)
  show "timestamp (ms ! i) = Finite (of_nat (digits_value 10 p))"
    unfolding mi using h by (intro timestamp_fixed_width) auto
  have "q \<noteq> []" using h by auto
  then show "timestamp (ms ! j) = Finite (of_nat (digits_value 10 q))"
    unfolding mj using h by (intro timestamp_fixed_width) auto
  have "map filename ms ! i \<le> map filename ms ! j"
    using sorted h by (intro sorted_pair) auto
  then have "p @ ''_'' @ r \<le> q @ ''_'' @ s" using h by simp
  then have "p \<le> q" using h lex_le_prefix by blast
  then show "digits_value 10 p \<le> digits_value 10 q"
    using h by (intro digits_lex_le) auto
qed


theorem getMigrations_order_witness:
  "getMigrations \<lparr>dir = Some [(''02_b.sql'', []), (''notes.txt'', []), (''01_a.sql'', [])]\<rparr>
     = Inr [migration_of ''01_a.sql'', migration_of ''02_b.sql''] \<and>
   sorted [''01_a.sql'', ''02_b.sql''] \<and>
   timestamp (migration_of ''01_a.sql'') = Finite 1 \<and>
   timestamp (migration_of ''02_b.sql'') = Finite 2"
proof -
  let ?fs = "\<lparr>dir = Some [(''02_b.sql'', []), (''notes.txt'', []), (''01_a.sql'', [])]\<rparr>"
  let ?ms = "[migration_of ''01_a.sql'', migration_of ''02_b.sql'']"
  have run: "getMigrations ?fs = Inr ?ms"
    by (simp add: getMigrations_def existsSync_def readdirSync_def endsWith_def)
  have digits: "\<forall>c\<in>set ''01''. in_radix 10 c" "\<forall>c\<in>set ''02''. in_radix 10 c"
    by (simp_all add: in_radix_def digit_value_def)
  have names: "filename (?ms ! 0) = ''01'' @ ''_'' @ ''a.sql''" "filename (?ms ! 1) = ''02'' @ ''_'' @ ''b.sql''"
    by (simp_all add: filename_migration_of)
  have vals: "digits_value 10 ''01'' = 1" "digits_value 10 ''02'' = 2"
    by (simp_all add: digits_value_def dv_def digit_value_def)
  from getMigrations_order [OF run] have
    "sorted (map filename ?ms)" and
    "\<forall>i j p q r s.
        i < j \<and> j < length ?ms \<and>
        filename (?ms ! i) = p @ ''_'' @ r \<and> filename (?ms ! j) = q @ ''_'' @ s \<and>
        p \<noteq> [] \<and> length p = length q \<and>
        (\<forall>c\<in>set p. in_radix 10 c) \<and> (\<forall>c\<in>set q. in_radix 10 c) \<longrightarrow>
        timestamp (?ms ! i) = Finite (of_nat (digits_value 10 p)) \<and>
        timestamp (?ms ! j) = Finite (of_nat (digits_value 10 q)) \<and>
        digits_value 10 p \<le> digits_value 10 q"
    by blast+
  from this(2) [rule_format, of 0 1 "''01''" "''a.sql''" "''02''" "''b.sql''"] digits names vals this(1) run
  show ?thesis by (simp add: filename_migration_of)
qed

text \<open>
  The claim as stated fails when the prefixes differ in length: version 10 comes before
  version 9.
\<close>

theorem getMigrations_order_counterexample:
  "getMigrations \<lparr>dir = Some [(''9_a.sql'', []), (''10_b.sql'', [])]\<rparr>
     = Inr [migration_of ''10_b.sql'', migration_of ''9_a.sql''] \<and>
   timestamp (migration_of ''10_b.sql'') = Finite 10 \<and>
   timestamp (migration_of ''9_a.sql'') = Finite 9"
  by (simp add: getMigrations_def existsSync_def readdirSync_def endsWith_def migration_of_def
      parseInt_def split_first_def js_whitespace_def in_radix_def digit_value_def
      digits_value_def dv_def)

text \<open>
  Claim C5, as amended. The only test \<^verbatim>\<open>getMigrations\<close> makes on a file name is that it
  ends in \<^verbatim>\<open>.sql\<close>: the catalog holds exactly the files of the directory with that
  ending, each with the name and the timestamp computed from its file name, whatever
  the shape of the rest of the name.
\<close>

theorem getMigrations_keeps_sql_files:
  "getMigrations fs = Inr ms \<Longrightarrow>
     set (map filename ms) = {f \<in> set (readdirSync fs). endsWith f ''.sql''} \<and>
     (\<forall>m\<in>set ms. m = migration_of (filename m))"
  by (auto simp: getMigrations_filenames getMigrations_def filename_migration_of split: if_splits)

theorem getMigrations_keeps_sql_files_witness:
  "set (map filename [migration_of ''init.sql'']) = {f \<in> set [''README.md'', ''init.sql'']. endsWith f ''.sql''}"
proof -
  let ?fs = "\<lparr>dir = Some [(''README.md'', []), (''init.sql'', [])]\<rparr>"
  have run: "getMigrations ?fs = Inr [migration_of ''init.sql'']"
    by (simp add: getMigrations_def existsSync_def readdirSync_def endsWith_def)
  show ?thesis using getMigrations_keeps_sql_files [OF run] by (simp add: readdirSync_def)
qed

text \<open>
  The claim as stated fails for a \<^verbatim>\<open>.sql\<close> file with no numeric prefix: it is in the
  catalog, with the timestamp \<^verbatim>\<open>NaN\<close>.
\<close>

theorem getMigrations_skips_counterexample:
  "getMigrations \<lparr>dir = Some [(''init.sql'', [])]\<rparr>
     = Inr [\<lparr>filename = ''init.sql'', path = ''supabase/migrations/init.sql'',
             name = ''init'', timestamp = NaN\<rparr>]"
  by (simp add: getMigrations_def existsSync_def readdirSync_def endsWith_def migration_of_def
      parseInt_def split_first_def js_whitespace_def in_radix_def digit_value_def
      join_def migrationsDir_def)

lemma join_inject: "(join d g = join d f) = (g = f)"
  by (simp add: join_def)

lemma read_after_write:
  "f \<in> fst ` set es \<Longrightarrow>
     map_of (map (\<lambda>(g, b). (join d g, b)) (map (\<lambda>(g, b). if g = f then (g, c) else (g, b)) es)) (join d f)
       = Some c"
proof (induction es)
  case Nil
  then show ?case by simp
next
  case (Cons e es)
  obtain g b where e: "e = (g, b)" by (cases e)
  show ?case
  proof (cases "g = f")
    case True
    then show ?thesis by (simp add: e)
  next
    case False
    then have "f \<in> fst ` set es" using Cons.prems e by auto
    then show ?thesis using Cons.IH False by (simp add: e join_inject)
  qed
qed

text \<open>
  Claim C7, as amended. \<^verbatim>\<open>create\<close> raises for an absent or empty name. Otherwise it
  writes the template to the file named by the 14-character compact timestamp, an
  underscore, the name as given and \<^verbatim>\<open>.sql\<close>. Two calls in the same second produce
  different file names exactly when their names differ; when a file of the produced
  name exists, the call succeeds and the file then holds the template.
\<close>

theorem create_filenames:
  "create None now fs = Inl NameRequired \<and>
   create (Some []) now fs = Inl NameRequired \<and>
   (n \<noteq> [] \<longrightarrow>
      create (Some n) now fs = writeFileSync fs (compact_timestamp now @ ''_'' @ n @ ''.sql'') template) \<and>
   (compact_timestamp now = compact_timestamp now' \<longrightarrow>
      (create_filename now n = create_filename now' n') = (n = n')) \<and>
   (n \<noteq> [] \<and> CHR ''/'' \<notin> set (create_filename now n) \<and> dir fs = Some es \<and>
    create_filename now n \<in> fst ` set es \<longrightarrow>
      (\<exists>fs'. create (Some n) now fs = Inr fs' \<and>
             readFileSync fs' (join migrationsDir (create_filename now n)) = Inr template))"
proof (intro conjI impI)
  show "create None now fs = Inl NameRequired" by (simp add: create_def)
  show "create (Some []) now fs = Inl NameRequired" by (simp add: create_def)
  show "create (Some n) now fs = writeFileSync fs (compact_timestamp now @ ''_'' @ n @ ''.sql'') template"
    if "n \<noteq> []" using that by (simp add: create_def create_filename_def)
  show "(create_filename now n = create_filename now' n') = (n = n')"
    if "compact_timestamp now = compact_timestamp now'"
    using that by (simp add: create_filename_def)
  show "\<exists>fs'. create (Some n) now fs = Inr fs' \<and>
             readFileSync fs' (join migrationsDir (create_filename now n)) = Inr template"
    if h: "n \<noteq> [] \<and> CHR ''/'' \<notin> set (create_filename now n) \<and> dir fs = Some es \<and>
           create_filename now n \<in> fst ` set es"
  proof -
    let ?f = "create_filename now n"
    let ?fs' = "fs\<lparr>dir := Some (map (\<lambda>(g, b). if g = ?f then (g, template) else (g, b)) es)\<rparr>"
    have "create (Some n) now fs = Inr ?fs'"
      using h by (simp add: create_def writeFileSync_def)
    moreover have "readFileSync ?fs' (join migrationsDir ?f) = Inr template"
      using h read_after_write [of ?f es migrationsDir template]
      by (simp add: readFileSync_def)
    ultimately show ?thesis by blast
  qed
qed

theorem create_filenames_witness:
  "create None ''2024-01-15T10:30:45.123Z''
      \<lparr>dir = Some [(''20240115103045_add_users.sql'', [Change ''users''])]\<rparr> = Inl NameRequired \<and>
   (create_filename ''2024-01-15T10:30:45.123Z'' ''add_users''
      = create_filename ''2024-01-15T10:30:45.987Z'' ''add_roles'') = (''add_users'' = ''add_roles'') \<and>
   (\<exists>fs'. create (Some ''add_users'') ''2024-01-15T10:30:45.123Z''
              \<lparr>dir = Some [(''20240115103045_add_users.sql'', [Change ''users''])]\<rparr> = Inr fs' \<and>
          readFileSync fs' (join migrationsDir (create_filename ''2024-01-15T10:30:45.123Z'' ''add_users''))
            = Inr template)"
proof -
  let ?t = "''2024-01-15T10:30:45.123Z''" and ?t' = "''2024-01-15T10:30:45.987Z''"
  let ?es = "[(''20240115103045_add_users.sql'', [Change ''users''])]"
  let ?fs = "\<lparr>dir = Some ?es\<rparr>"
  have same: "compact_timestamp ?t = compact_timestamp ?t'"
    by (simp add: compact_timestamp_def)
  have fn: "create_filename ?t ''add_users'' = ''20240115103045_add_users.sql''"
    by (simp add: create_filename_def compact_timestamp_def)
  have pre: "''add_users'' \<noteq> [] \<and> CHR ''/'' \<notin> set (create_filename ?t ''add_users'') \<and>
             dir ?fs = Some ?es \<and> create_filename ?t ''add_users'' \<in> fst ` set ?es"
    unfolding fn by simp
  from create_filenames [of ?t ?fs "''add_users''" ?t' "''add_roles''" ?es] same pre
  show ?thesis by blast
qed

text \<open>
  The claim as stated fails for two calls with the same name in the same second: the
  file name is the same, and the second call replaces the content of the file.
\<close>

theorem create_filenames_counterexample:
  "create_filename ''2024-01-15T10:30:45.123Z'' ''add_users''
     = create_filename ''2024-01-15T10:30:45.987Z'' ''add_users'' \<and>
   create (Some ''add_users'') ''2024-01-15T10:30:45.987Z''
      \<lparr>dir = Some [(''20240115103045_add_users.sql'', [Change ''users''])]\<rparr>
     = Inr \<lparr>dir = Some [(''20240115103045_add_users.sql'', [])]\<rparr>"
  by (simp add: create_def create_filename_def compact_timestamp_def writeFileSync_def template_def)

lemma parse_delete_insert_sql: "parse_delete (insert_sql n f) = None"
proof -
  have "expect (delete_head @ [sq]) (insert_sql n f) = None"
    by (rule expect_mismatch) (simp_all add: insert_head_def insert_sql_def delete_head_def)
  then show ?thesis by (simp add: parse_delete_def)
qed

lemma parse_sql_insert_sql: "parse_sql (insert_sql n f) = parse_insert (insert_sql n f)"
  by (simp add: parse_sql_def insert_sql_not_control parse_delete_insert_sql split: option.splits)

lemma parse_sql_delete_sql: "parse_sql (delete_sql n) = parse_delete (delete_sql n)"
  by (simp add: parse_sql_def delete_sql_not_control parse_insert_delete_sql)

text \<open>
  Claim C9. The name is put between the quotes of the template as it is: a quote
  character of the name stands in the statement as one quote character, between the
  text before it and the text after it. The literal the session reads at that place is
  then not the name, so neither statement denotes the insertion or the deletion of the
  record of that name.
\<close>

theorem ledger_sql_verbatim:
  "sq \<in> set n \<Longrightarrow>
     (\<forall>u v. n = u @ sq # v \<longrightarrow>
        insert_sql n f = insert_head @ [sq] @ u @ [sq] @ v @ [sq] @ '', '' @ [sq] @ f @ [sq] @ insert_tail \<and>
        delete_sql n = delete_head @ [sq] @ u @ [sq] @ v @ [sq] @ '';'') \<and>
     parse_sql (insert_sql n f) \<noteq> Some (CInsert n f) \<and>
     parse_sql (delete_sql n) \<noteq> Some (CDelete n)"
proof (intro conjI allI impI)
  assume q: "sq \<in> set n"
  have "scan_literal (n @ sq # '', '' @ sq # f @ sq # insert_tail) \<noteq> Some (n, r)" for r
    using scan_literal_quoted [OF q, of "'', '' @ sq # f @ sq # insert_tail"] by (simp add: sq_def)
  then have "parse_insert (insert_sql n f) \<noteq> Some (CInsert n f)"
    unfolding parse_insert_sql by (auto split: option.splits if_splits)
  then show "parse_sql (insert_sql n f) \<noteq> Some (CInsert n f)"
    by (simp add: parse_sql_insert_sql)
  have "scan_literal (n @ sq # '';'') \<noteq> Some (n, r)" for r
    using scan_literal_quoted [OF q, of "'';''"] by (simp add: sq_def)
  then have "parse_delete (delete_sql n) \<noteq> Some (CDelete n)"
    unfolding parse_delete_sql by (auto split: option.splits if_splits)
  then show "parse_sql (delete_sql n) \<noteq> Some (CDelete n)"
    by (simp add: parse_sql_delete_sql)
next
  fix u v
  assume "n = u @ sq # v"
  then show "insert_sql n f = insert_head @ [sq] @ u @ [sq] @ v @ [sq] @ '', '' @ [sq] @ f @ [sq] @ insert_tail"
    by (simp add: insert_sql_def)
next
  fix u v
  assume "n = u @ sq # v"
  then show "delete_sql n = delete_head @ [sq] @ u @ [sq] @ v @ [sq] @ '';''"
    by (simp add: delete_sql_def)
qed

theorem ledger_sql_verbatim_witness:
  "sq \<in> set ''it's'' \<and>
   delete_sql ''it's'' = delete_head @ [sq] @ ''it'' @ [sq] @ ''s'' @ [sq] @ '';'' \<and>
   parse_sql (delete_sql ''it's'') \<noteq> Some (CDelete ''it's'') \<and>
   parse_sql (insert_sql ''it's'' ''it's.sql'') \<noteq> Some (CInsert ''it's'' ''it's.sql'')"
proof -
  have q: "sq \<in> set ''it's''" by (simp add: sq_def)
  have parts: "''it's'' = ''it'' @ sq # ''s''" by (simp add: sq_def)
  note inst = ledger_sql_verbatim [OF q, of "''it's.sql''"]
  from inst have "\<forall>u v. ''it's'' = u @ sq # v \<longrightarrow>
      delete_sql ''it's'' = delete_head @ [sq] @ u @ [sq] @ v @ [sq] @ '';''"
    by blast
  then have "delete_sql ''it's'' = delete_head @ [sq] @ ''it'' @ [sq] @ ''s'' @ [sq] @ '';''"
    using parts by blast
  with inst q show ?thesis by blast
qed

subsection \<open>The session, statement by statement\<close>

lemma run_body_eq: "run_body body s = (failure body, s\<lparr>schema := schema s @ changes body\<rparr>)"
  by (induction body s rule: run_body.induct) simp_all

lemma insert_parse_cases:
  "parse_sql (insert_sql n f) = None \<or> (\<exists>n' f'. parse_sql (insert_sql n f) = Some (CInsert n' f'))"
  by (auto simp: parse_sql_insert_sql parse_insert_def split: option.splits)

lemma delete_parse_cases:
  "parse_sql (delete_sql n) = None \<or> (\<exists>n'. parse_sql (delete_sql n) = Some (CDelete n'))"
  by (auto simp: parse_sql_delete_sql parse_delete_def split: option.splits)

lemma exec_begin:
  "txn d = None \<Longrightarrow>
     exec_sql (Text ''BEGIN;'') d
       = (None, d\<lparr>txn := Some \<lparr>work = committed d, aborted = False, started = clock d\<rparr>,
                  clock := Suc (clock d)\<rparr>)"
  by (simp add: exec_sql_def parse_sql_begin run_command_def)

lemma exec_commit:
  "txn d = Some t \<Longrightarrow>
     exec_sql (Text ''COMMIT;'') d
       = (None, d\<lparr>committed := (if aborted t then committed d else work t), txn := None\<rparr>)"
  by (simp add: exec_sql_def parse_sql_commit run_command_def)

lemma exec_rollback: "exec_sql (Text ''ROLLBACK;'') d = (None, d\<lparr>txn := None\<rparr>)"
  by (simp add: exec_sql_def parse_sql_rollback run_command_def)

lemma exec_script:
  "txn d = Some t \<Longrightarrow> \<not> aborted t \<Longrightarrow>
     exec_sql (Script body) d
       = (failure body,
          d\<lparr>txn := Some (t\<lparr>work := (work t)\<lparr>schema := schema (work t) @ changes body\<rparr>,
                           aborted := (failure body \<noteq> None)\<rparr>)\<rparr>)"
  by (cases "failure body") (simp_all add: exec_sql_def run_statement_def run_body_eq)

text \<open>The insert in an open transaction: either the transaction is aborted, or one row is added.\<close>

lemma exec_insert_txn:
  assumes "txn d = Some t" "\<not> aborted t"
  obtains (abort) err where
      "exec_sql (Text (insert_sql n f)) d = (Some err, d\<lparr>txn := Some (t\<lparr>aborted := True\<rparr>)\<rparr>)"
  | (added) n' f' rows where
      "ledger (work t) = Some rows"
      "exec_sql (Text (insert_sql n f)) d
         = (None, d\<lparr>txn := Some (t\<lparr>work := (work t)\<lparr>ledger :=
               Some (rows @ [\<lparr>row_name = n', row_filename = f', applied_at = started t\<rparr>])\<rparr>\<rparr>)\<rparr>)"
proof -
  from insert_parse_cases [of n f] show ?thesis
  proof
    assume "parse_sql (insert_sql n f) = None"
    then have "exec_sql (Text (insert_sql n f)) d
                 = (Some syntax_error, d\<lparr>txn := Some (t\<lparr>aborted := True\<rparr>)\<rparr>)"
      using assms by (simp add: exec_sql_def run_statement_def)
    then show ?thesis by (rule abort)
  next
    assume "\<exists>n' f'. parse_sql (insert_sql n f) = Some (CInsert n' f')"
    then obtain n' f' where p: "parse_sql (insert_sql n f) = Some (CInsert n' f')" by blast
    show ?thesis
    proof (cases "ledger (work t)")
      case None
      then have "exec_sql (Text (insert_sql n f)) d
                   = (Some undefined_table, d\<lparr>txn := Some (t\<lparr>aborted := True\<rparr>)\<rparr>)"
        using assms p
        by (simp add: exec_sql_def run_command_def run_statement_def ledger_insert_def)
      then show ?thesis by (rule abort)
    next
      case (Some rows)
      show ?thesis
      proof (cases "n' \<in> set (map row_name rows)")
        case True
        then have "exec_sql (Text (insert_sql n f)) d
                     = (Some unique_violation, d\<lparr>txn := Some (t\<lparr>aborted := True\<rparr>)\<rparr>)"
          using assms p Some
          by (simp add: exec_sql_def run_command_def run_statement_def ledger_insert_def)
        then show ?thesis by (rule abort)
      next
        case False
        then have "exec_sql (Text (insert_sql n f)) d
           = (None, d\<lparr>txn := Some (t\<lparr>work := (work t)\<lparr>ledger :=
               Some (rows @ [\<lparr>row_name = n', row_filename = f', applied_at = started t\<rparr>])\<rparr>\<rparr>)\<rparr>)"
          using assms p Some
          by (simp add: exec_sql_def run_command_def run_statement_def ledger_insert_def)
        with Some show ?thesis by (rule added)
      qed
    qed
  qed
qed

lemma exec_insert_fresh:
  assumes "txn d = Some t" "\<not> aborted t" "sq \<notin> set n" "sq \<notin> set f"
    "ledger (work t) = Some rows" "n \<notin> set (map row_name rows)"
  shows "exec_sql (Text (insert_sql n f)) d
           = (None, d\<lparr>txn := Some (t\<lparr>work := (work t)\<lparr>ledger :=
                 Some (rows @ [\<lparr>row_name = n, row_filename = f, applied_at = started t\<rparr>])\<rparr>\<rparr>)\<rparr>)"
  using assms
  by (simp add: exec_sql_def parse_sql_insert run_command_def run_statement_def ledger_insert_def)

lemma rpc_delivered:
  "script c = [] \<Longrightarrow>
     rpc q c = (Inr (fst (exec_sql q (db c))),
                c\<lparr>script := [], sent := sent c @ [q], db := snd (exec_sql q (db c))\<rparr>)"
  by (simp add: rpc_def split: prod.splits)


lemma rollback_and_fail_delivered:
  "script c = [] \<Longrightarrow>
     rollback_and_fail c
       = (Inr False, c\<lparr>script := [], sent := sent c @ [Text ''ROLLBACK;''],
                         db := (db c)\<lparr>txn := None\<rparr>\<rparr>)"
  by (simp add: rollback_and_fail_def rpc_delivered exec_rollback)

text \<open>The client after \<^verbatim>\<open>BEGIN\<close> and the body, when every call is delivered.\<close>

lemma begin_and_body:
  fixes body :: sql_body and c :: client
  assumes "txn (db c) = None" "script c = []"
    and c1_def: "c1 = snd (rpc (Text ''BEGIN;'') c)"
    and c2_def: "c2 = snd (rpc (Script body) c1)"
  shows "rpc (Text ''BEGIN;'') c = (Inr None, c1)"
    and "rpc (Script body) c1 = (Inr (failure body), c2)"
    and "script c2 = []"
    and "sent c2 = sent c @ [Text ''BEGIN;'', Script body]"
    and "committed (db c2) = committed (db c)"
    and "clock (db c2) = Suc (clock (db c))"
    and "txn (db c2) = Some \<lparr>work = (committed (db c))\<lparr>schema := schema (committed (db c)) @ changes body\<rparr>,
                              aborted = (failure body \<noteq> None), started = clock (db c)\<rparr>"
proof -
  have c1: "c1 = c\<lparr>script := [], sent := sent c @ [Text ''BEGIN;''],
                   db := (db c)\<lparr>txn := Some \<lparr>work = committed (db c), aborted = False,
                                              started = clock (db c)\<rparr>,
                               clock := Suc (clock (db c))\<rparr>\<rparr>"
    unfolding c1_def using assms(1,2) by (simp add: rpc_delivered exec_begin)
  show r1: "rpc (Text ''BEGIN;'') c = (Inr None, c1)"
    unfolding c1_def using assms(1,2) by (simp add: rpc_delivered exec_begin)
  have t1: "txn (db c1) = Some \<lparr>work = committed (db c), aborted = False, started = clock (db c)\<rparr>"
    and s1: "script c1 = []"
    by (simp_all add: c1)
  have e2: "exec_sql (Script body) (db c1)
       = (failure body,
          (db c1)\<lparr>txn := Some (\<lparr>work = committed (db c), aborted = False, started = clock (db c)\<rparr>
                 \<lparr>work := (committed (db c))\<lparr>schema := schema (committed (db c)) @ changes body\<rparr>,
                           aborted := (failure body \<noteq> None)\<rparr>)\<rparr>)"
    using exec_script [OF t1, of body] by simp
  show "rpc (Script body) c1 = (Inr (failure body), c2)"
    unfolding c2_def by (simp add: rpc_delivered s1 e2)
  show "script c2 = []" unfolding c2_def by (simp add: rpc_delivered s1)
  show "sent c2 = sent c @ [Text ''BEGIN;'', Script body]"
    unfolding c2_def by (simp add: rpc_delivered s1) (simp add: c1)
  show "committed (db c2) = committed (db c)"
    unfolding c2_def by (simp add: rpc_delivered s1 e2) (simp add: c1)
  show "clock (db c2) = Suc (clock (db c))"
    unfolding c2_def by (simp add: rpc_delivered s1 e2) (simp add: c1)
  show "txn (db c2) = Some \<lparr>work = (committed (db c))\<lparr>schema := schema (committed (db c)) @ changes body\<rparr>,
                              aborted = (failure body \<noteq> None), started = clock (db c)\<rparr>"
    unfolding c2_def by (simp add: rpc_delivered s1 e2)
qed


lemma applyMigration_body_fails:
  assumes "readFileSync fs (path m) = Inr body" "txn (db c) = None" "script c = []"
    "failure body \<noteq> None"
  shows "\<exists>c'. applyMigration fs m c = (Inr False, c') \<and> script c' = [] \<and>
           committed (db c') = committed (db c) \<and> txn (db c') = None \<and>
           sent c' = sent c @ [Text ''BEGIN;'', Script body, Text ''ROLLBACK;'']"
proof -
  define c1 where "c1 = snd (rpc (Text ''BEGIN;'') c)"
  define c2 where "c2 = snd (rpc (Script body) c1)"
  note bb = begin_and_body [OF assms(2,3) c1_def c2_def]
  obtain e where e: "failure body = Some e" using assms(4) by auto
  have "applyMigration fs m c = rollback_and_fail c2"
    by (simp add: applyMigration_def assms(1) bb(1) bb(2) e)
  then show ?thesis
    by (simp add: rollback_and_fail_delivered bb)
qed

lemma applyMigration_body_ok:
  assumes "readFileSync fs (path m) = Inr body" "txn (db c) = None" "script c = []"
    "failure body = None"
  shows "\<exists>c'. applyMigration fs m c = (Inr True, c') \<and> script c' = [] \<and> txn (db c') = None \<and>
           sent c' = sent c @ [Text ''BEGIN;'', Script body,
                               Text (insert_sql (name m) (filename m)), Text ''COMMIT;''] \<and>
           (committed (db c') = committed (db c) \<or>
            (\<exists>rows row. ledger (committed (db c)) = Some rows \<and>
               committed (db c') = (committed (db c))\<lparr>schema := schema (committed (db c)) @ changes body,
                                                     ledger := Some (rows @ [row])\<rparr>))"
proof -
  define c1 where "c1 = snd (rpc (Text ''BEGIN;'') c)"
  define c2 where "c2 = snd (rpc (Script body) c1)"
  note bb = begin_and_body [OF assms(2,3) c1_def c2_def]
  let ?q = "Text (insert_sql (name m) (filename m))"
  define c3 where "c3 = snd (rpc ?q c2)"
  define c4 where "c4 = snd (rpc (Text ''COMMIT;'') c3)"
  let ?t = "\<lparr>work = (committed (db c))\<lparr>schema := schema (committed (db c)) @ changes body\<rparr>,
             aborted = False, started = clock (db c)\<rparr>"
  have t2: "txn (db c2) = Some ?t" using bb(7) assms(4) by simp
  have r3: "rpc ?q c2 = (Inr (fst (exec_sql ?q (db c2))), c3)"
    unfolding c3_def by (simp add: rpc_delivered bb(3))
  have s3: "script c3 = []" "sent c3 = sent c2 @ [?q]" "db c3 = snd (exec_sql ?q (db c2))"
    unfolding c3_def by (simp_all add: rpc_delivered bb(3))
  have r4: "rpc (Text ''COMMIT;'') c3 = (Inr (fst (exec_sql (Text ''COMMIT;'') (db c3))), c4)"
    unfolding c4_def by (simp add: rpc_delivered s3(1))
  have s4: "script c4 = []" "sent c4 = sent c3 @ [Text ''COMMIT;'']"
    "db c4 = snd (exec_sql (Text ''COMMIT;'') (db c3))"
    unfolding c4_def by (simp_all add: rpc_delivered s3(1))
  have run: "applyMigration fs m c = (Inr True, c4)"
    by (simp add: applyMigration_def assms(1,4) bb(1) bb(2) r3 r4)
  have sent: "sent c4 = sent c @ [Text ''BEGIN;'', Script body, ?q, Text ''COMMIT;'']"
    by (simp add: s4 s3 bb(4))
  have "\<not> aborted ?t" by simp
  with t2 have "txn (db c4) = None \<and>
     (committed (db c4) = committed (db c) \<or>
      (\<exists>rows row. ledger (committed (db c)) = Some rows \<and>
         committed (db c4) = (committed (db c))\<lparr>schema := schema (committed (db c)) @ changes body,
                                               ledger := Some (rows @ [row])\<rparr>))"
  proof (cases rule: exec_insert_txn [where n = "name m" and f = "filename m"])
    case (abort err)
    then show ?thesis by (simp add: s4(3) s3(3) exec_commit bb(5))
  next
    case (added n' f' rows)
    then show ?thesis by (auto simp add: s4(3) s3(3) exec_commit)
  qed
  with run sent s4(1) show ?thesis by blast
qed

lemma applyMigration_fresh:
  assumes "readFileSync fs (path m) = Inr body" "txn (db c) = None" "script c = []"
    "failure body = None" "sq \<notin> set (name m)" "sq \<notin> set (filename m)"
    "ledger (committed (db c)) = Some rows" "name m \<notin> set (map row_name rows)"
  shows "\<exists>c'. applyMigration fs m c = (Inr True, c') \<and> script c' = [] \<and> txn (db c') = None \<and>
           clock (db c') = Suc (clock (db c)) \<and>
           sent c' = sent c @ [Text ''BEGIN;'', Script body,
                               Text (insert_sql (name m) (filename m)), Text ''COMMIT;''] \<and>
           committed (db c') = (committed (db c))\<lparr>schema := schema (committed (db c)) @ changes body,
               ledger := Some (rows @ [\<lparr>row_name = name m, row_filename = filename m,
                                        applied_at = clock (db c)\<rparr>])\<rparr>"
proof -
  define c1 where "c1 = snd (rpc (Text ''BEGIN;'') c)"
  define c2 where "c2 = snd (rpc (Script body) c1)"
  note bb = begin_and_body [OF assms(2,3) c1_def c2_def]
  let ?q = "Text (insert_sql (name m) (filename m))"
  define c3 where "c3 = snd (rpc ?q c2)"
  define c4 where "c4 = snd (rpc (Text ''COMMIT;'') c3)"
  let ?t = "\<lparr>work = (committed (db c))\<lparr>schema := schema (committed (db c)) @ changes body\<rparr>,
             aborted = False, started = clock (db c)\<rparr>"
  have t2: "txn (db c2) = Some ?t" using bb(7) assms(4) by simp
  have r3: "rpc ?q c2 = (Inr (fst (exec_sql ?q (db c2))), c3)"
    unfolding c3_def by (simp add: rpc_delivered bb(3))
  have s3: "script c3 = []" "sent c3 = sent c2 @ [?q]" "db c3 = snd (exec_sql ?q (db c2))"
    unfolding c3_def by (simp_all add: rpc_delivered bb(3))
  have r4: "rpc (Text ''COMMIT;'') c3 = (Inr (fst (exec_sql (Text ''COMMIT;'') (db c3))), c4)"
    unfolding c4_def by (simp add: rpc_delivered s3(1))
  have s4: "script c4 = []" "sent c4 = sent c3 @ [Text ''COMMIT;'']"
    "db c4 = snd (exec_sql (Text ''COMMIT;'') (db c3))"
    unfolding c4_def by (simp_all add: rpc_delivered s3(1))
  have run: "applyMigration fs m c = (Inr True, c4)"
    by (simp add: applyMigration_def assms(1,4) bb(1) bb(2) r3 r4)
  have sent: "sent c4 = sent c @ [Text ''BEGIN;'', Script body, ?q, Text ''COMMIT;'']"
    by (simp add: s4 s3 bb(4))
  have ins: "exec_sql ?q (db c2)
           = (None, (db c2)\<lparr>txn := Some (?t\<lparr>work := (work ?t)\<lparr>ledger :=
                 Some (rows @ [\<lparr>row_name = name m, row_filename = filename m,
                                 applied_at = started ?t\<rparr>])\<rparr>\<rparr>)\<rparr>)"
    using assms(7,8) by (intro exec_insert_fresh [OF t2 _ assms(5,6)]) simp_all
  have "txn (db c4) = None" "clock (db c4) = Suc (clock (db c))"
    "committed (db c4) = (committed (db c))\<lparr>schema := schema (committed (db c)) @ changes body,
               ledger := Some (rows @ [\<lparr>row_name = name m, row_filename = filename m,
                                        applied_at = clock (db c)\<rparr>])\<rparr>"
    by (simp_all add: s4(3) s3(3) ins exec_commit bb(6))
  with run sent s4(1) show ?thesis by blast
qed

subsection \<open>Applying one migration\<close>






subsection \<open>Running the pending migrations\<close>

lemma getApplied_delivered:
  assumes "script c = []" "txn (db c) = None" "ledger (committed (db c)) = Some rows"
  shows "getAppliedMigrations c = (sort_key applied_at rows, c)"
proof -
  have "c\<lparr>script := []\<rparr> = c" using assms(1) by simp
  then show ?thesis using assms
    by (simp add: getAppliedMigrations_def select_all_def select_ledger_def read_applied_def)
qed

lemma apply_each_append_ok:
  assumes "script c = []" "txn (db c) = None" "ledger (committed (db c)) = Some rows"
    "\<forall>m\<in>set pre. readFileSync fs (path m) = Inr (body_of fs m) \<and> failure (body_of fs m) = None \<and>
                  sq \<notin> set (name m) \<and> sq \<notin> set (filename m)"
    "distinct (map name pre)" "set (map name pre) \<inter> set (map row_name rows) = {}"
  shows "\<exists>c' rows'. apply_each fs (pre @ rest) c = apply_each fs rest c' \<and>
           script c' = [] \<and> txn (db c') = None \<and>
           schema (committed (db c'))
             = schema (committed (db c)) @ concat (map (\<lambda>m. changes (body_of fs m)) pre) \<and>
           ledger (committed (db c')) = Some (rows @ rows') \<and>
           map row_name rows' = map name pre \<and> map row_filename rows' = map filename pre \<and>
           sent c' = sent c @ concat (map (\<lambda>m. [Text ''BEGIN;'', Script (body_of fs m),
                        Text (insert_sql (name m) (filename m)), Text ''COMMIT;'']) pre)"
  using assms
proof (induction pre arbitrary: c rows)
  case Nil
  then show ?case by (intro exI [of _ c] exI [of _ "[]"]) simp
next
  case (Cons m pre)
  have m: "readFileSync fs (path m) = Inr (body_of fs m)" "failure (body_of fs m) = None"
    "sq \<notin> set (name m)" "sq \<notin> set (filename m)" "name m \<notin> set (map row_name rows)"
    using Cons.prems by auto
  from applyMigration_fresh [OF m(1) Cons.prems(2) Cons.prems(1) m(2) m(3) m(4) Cons.prems(3) m(5)]
  obtain c1 where c1: "applyMigration fs m c = (Inr True, c1)" "script c1 = []" "txn (db c1) = None"
     "sent c1 = sent c @ [Text ''BEGIN;'', Script (body_of fs m),
                          Text (insert_sql (name m) (filename m)), Text ''COMMIT;'']"
     "committed (db c1) = (committed (db c))\<lparr>schema := schema (committed (db c)) @ changes (body_of fs m),
               ledger := Some (rows @ [\<lparr>row_name = name m, row_filename = filename m,
                                        applied_at = clock (db c)\<rparr>])\<rparr>"
    by blast
  let ?row = "\<lparr>row_name = name m, row_filename = filename m, applied_at = clock (db c)\<rparr>"
  have l1: "ledger (committed (db c1)) = Some (rows @ [?row])" by (simp add: c1(5))
  have pre: "\<forall>m\<in>set pre. readFileSync fs (path m) = Inr (body_of fs m) \<and> failure (body_of fs m) = None \<and>
                  sq \<notin> set (name m) \<and> sq \<notin> set (filename m)"
    "distinct (map name pre)" "set (map name pre) \<inter> set (map row_name (rows @ [?row])) = {}"
    using Cons.prems by auto
  from Cons.IH [OF c1(2) c1(3) l1 pre] obtain c' rows' where
    c': "apply_each fs (pre @ rest) c1 = apply_each fs rest c'" "script c' = []" "txn (db c') = None"
      "schema (committed (db c'))
             = schema (committed (db c1)) @ concat (map (\<lambda>m. changes (body_of fs m)) pre)"
      "ledger (committed (db c')) = Some ((rows @ [?row]) @ rows')"
      "map row_name rows' = map name pre" "map row_filename rows' = map filename pre"
      "sent c' = sent c1 @ concat (map (\<lambda>m. [Text ''BEGIN;'', Script (body_of fs m),
                        Text (insert_sql (name m) (filename m)), Text ''COMMIT;'']) pre)"
    by blast
  have "apply_each fs ((m # pre) @ rest) c = apply_each fs rest c'"
    by (simp add: c1(1) c'(1))
  moreover have "schema (committed (db c'))
      = schema (committed (db c)) @ concat (map (\<lambda>m. changes (body_of fs m)) (m # pre))"
    by (simp add: c'(4) c1(5))
  moreover have "ledger (committed (db c')) = Some (rows @ (?row # rows'))"
    by (simp add: c'(5))
  moreover have "map row_name (?row # rows') = map name (m # pre)"
    "map row_filename (?row # rows') = map filename (m # pre)"
    by (simp_all add: c'(6,7))
  moreover have "sent c' = sent c @ concat (map (\<lambda>m. [Text ''BEGIN;'', Script (body_of fs m),
                        Text (insert_sql (name m) (filename m)), Text ''COMMIT;'']) (m # pre))"
    by (simp add: c'(8) c1(4))
  ultimately show ?case using c'(2,3) by blast
qed


lemma read_listed:
  "f \<in> fst ` set es \<Longrightarrow> map_of (map (\<lambda>(g, b). (join d g, b)) es) (join d f) \<noteq> None"
  by (induction es) (auto simp: join_inject)

lemma catalog_readable:
  assumes "getMigrations fs = Inr ms" "m \<in> set ms"
  shows "readFileSync fs (path m) = Inr (body_of fs m)"
proof -
  obtain es where es: "dir fs = Some es"
    using assms(1) by (auto simp: getMigrations_def existsSync_def split: if_splits)
  have "filename m \<in> set (map filename ms)" using assms(2) by simp
  then have "filename m \<in> fst ` set es"
    using assms(1) es by (auto simp: getMigrations_filenames readdirSync_def)
  then have 1: "map_of (map (\<lambda>(g, b). (join migrationsDir g, b)) es) (join migrationsDir (filename m)) \<noteq> None"
    by (rule read_listed)
  have "m = migration_of (filename m)"
    using assms by (auto simp: getMigrations_def filename_migration_of split: if_splits)
  then have "path m = join migrationsDir (filename m)"
    by (metis migration.select_convs(2) migration_of_def)
  with 1 es show ?thesis
    by (auto simp: readFileSync_def body_of_def)
qed

lemma pending_in_catalog:
  assumes "getPendingMigrations fs c = (Inr pending, c')"
  shows "\<exists>ms. getMigrations fs = Inr ms \<and> set pending \<subseteq> set ms"
  using assms
  by (auto simp: getPendingMigrations_def Let_def split: sum.splits prod.splits)

lemma pending_delivered:
  assumes "script c = []" "txn (db c) = None" "ledger (committed (db c)) = Some rows"
    "getPendingMigrations fs c = (Inr pending, c')"
  shows "c' = c \<and> set (map name pending) \<inter> set (map row_name rows) = {}"
  using assms(4)
  by (auto simp: getPendingMigrations_def Let_def getApplied_delivered [OF assms(1,2,3)]
      split: sum.splits)

text \<open>
  The loop on an initialised ledger, every call being delivered, with pending migrations
  \<open>pre @ b # post\<close> of distinct names without quote characters, where the SQL of each
  migration of \<open>pre\<close> succeeds and the SQL of \<open>b\<close> raises: no ledger write fails. The
  run returns \<^verbatim>\<open>false\<close>; the migrations of \<open>pre\<close> are committed and ledgered in order,
  \<open>b\<close> is rolled back and has no ledger record, and nothing is sent for \<open>post\<close>.
\<close>

lemma runPending_fail_fast:
  assumes "script c = []" "txn (db c) = None" "ledger (committed (db c)) = Some rows"
    and "getPendingMigrations fs c = (Inr (pre @ b # post), c0)"
    and "\<forall>m\<in>set pre. failure (body_of fs m) = None \<and> sq \<notin> set (name m) \<and> sq \<notin> set (filename m)"
    and "distinct (map name (pre @ [b]))"
    and "failure (body_of fs b) \<noteq> None"
  shows "\<exists>c' rows'. runPending fs c = (Inr False, c') \<and>
           schema (committed (db c'))
             = schema (committed (db c)) @ concat (map (\<lambda>m. changes (body_of fs m)) pre) \<and>
           ledger (committed (db c')) = Some (rows @ rows') \<and>
           map row_name rows' = map name pre \<and> map row_filename rows' = map filename pre \<and>
           name b \<notin> set (map row_name (rows @ rows')) \<and>
           txn (db c') = None \<and>
           sent c' = sent c @ concat (map (\<lambda>m. [Text ''BEGIN;'', Script (body_of fs m),
                        Text (insert_sql (name m) (filename m)), Text ''COMMIT;'']) pre)
                     @ [Text ''BEGIN;'', Script (body_of fs b), Text ''ROLLBACK;'']"
proof -
  from pending_delivered [OF assms(1,2,3,4)]
  have c0: "c0 = c" and fresh: "set (map name (pre @ b # post)) \<inter> set (map row_name rows) = {}"
    by blast+
  from pending_in_catalog [OF assms(4)] obtain ms where
    ms: "getMigrations fs = Inr ms" "set (pre @ b # post) \<subseteq> set ms" by blast
  have readable: "readFileSync fs (path m) = Inr (body_of fs m)" if "m \<in> set (pre @ b # post)" for m
    using catalog_readable [OF ms(1)] ms(2) that by blast
  have pre: "\<forall>m\<in>set pre. readFileSync fs (path m) = Inr (body_of fs m) \<and> failure (body_of fs m) = None \<and>
                  sq \<notin> set (name m) \<and> sq \<notin> set (filename m)"
    using assms(5) readable by simp
  have d: "distinct (map name pre)" and f: "set (map name pre) \<inter> set (map row_name rows) = {}"
    using assms(6) fresh by auto
  from apply_each_append_ok [OF assms(1,2,3) pre d f, of "b # post"] obtain c1 rows' where
    c1: "apply_each fs (pre @ b # post) c = apply_each fs (b # post) c1"
      "script c1 = []" "txn (db c1) = None"
      "schema (committed (db c1))
             = schema (committed (db c)) @ concat (map (\<lambda>m. changes (body_of fs m)) pre)"
      "ledger (committed (db c1)) = Some (rows @ rows')"
      "map row_name rows' = map name pre" "map row_filename rows' = map filename pre"
      "sent c1 = sent c @ concat (map (\<lambda>m. [Text ''BEGIN;'', Script (body_of fs m),
                        Text (insert_sql (name m) (filename m)), Text ''COMMIT;'']) pre)"
    by blast
  have rb: "readFileSync fs (path b) = Inr (body_of fs b)" using readable by simp
  from applyMigration_body_fails [OF rb c1(3) c1(2) assms(7)] obtain c' where
    c': "applyMigration fs b c1 = (Inr False, c')" "committed (db c') = committed (db c1)"
        "txn (db c') = None"
        "sent c' = sent c1 @ [Text ''BEGIN;'', Script (body_of fs b), Text ''ROLLBACK;'']"
    by blast
  have run: "runPending fs c = (Inr False, c')"
    using assms(4) by (simp add: runPending_def c0 c1(1) c'(1))
  have nb: "name b \<notin> set (map row_name (rows @ rows'))"
    using assms(6) fresh c1(6) by auto
  show ?thesis
    using run c1(4,5,6,7) c'(2,3,4) c1(8) nb by (intro exI [of _ c'] exI [of _ rows']) simp
qed


lemma runPending_fail_fast_example:
  "\<exists>c' rows'. runPending fs_abc c_empty = (Inr False, c') \<and>
      schema (committed (db c')) = [''a''] \<and>
      ledger (committed (db c')) = Some rows' \<and>
      map row_name rows' = [''1_a''] \<and>
      ''2_b'' \<notin> set (map row_name rows') \<and>
      sent c' = [Text ''BEGIN;'', Script [Change ''a''], Text (insert_sql ''1_a'' ''1_a.sql''),
                 Text ''COMMIT;'', Text ''BEGIN;'',
                 Script [Change ''b1'', Raise syntax_error, Change ''b2''], Text ''ROLLBACK;'']"
proof -
  let ?A = "migration_of ''1_a.sql''" and ?B = "migration_of ''2_b.sql''"
    and ?C = "migration_of ''3_c.sql''"
  have s: "script c_empty = []" and t: "txn (db c_empty) = None"
    and l: "ledger (committed (db c_empty)) = Some []"
    by (simp_all add: c_empty_def)
  have cat: "getMigrations fs_abc = Inr [?A, ?B, ?C]"
    by (simp add: getMigrations_def existsSync_def readdirSync_def endsWith_def fs_abc_def)
  have names: "name ?A = ''1_a''" "name ?B = ''2_b''" "name ?C = ''3_c''"
    "filename ?A = ''1_a.sql''"
    by (simp_all add: migration_of_def)
  have pend: "getPendingMigrations fs_abc c_empty = (Inr ([?A] @ ?B # [?C]), c_empty)"
    by (simp add: getPendingMigrations_def cat getApplied_delivered [OF s t l])
  have bodies: "body_of fs_abc ?A = [Change ''a'']"
    "body_of fs_abc ?B = [Change ''b1'', Raise syntax_error, Change ''b2'']"
    by (simp_all add: body_of_def readFileSync_def fs_abc_def migration_of_def join_def)
  have pre: "\<forall>m\<in>set [?A]. failure (body_of fs_abc m) = None \<and> sq \<notin> set (name m) \<and>
               sq \<notin> set (filename m)"
    by (simp add: bodies names sq_def)
  have d: "distinct (map name ([?A] @ [?B]))" by (simp add: names)
  have fb: "failure (body_of fs_abc ?B) \<noteq> None" by (simp add: bodies)
  from runPending_fail_fast [OF s t l pend pre d fb] obtain c' rows' where
    "runPending fs_abc c_empty = (Inr False, c')"
    "schema (committed (db c'))
       = schema (committed (db c_empty)) @ concat (map (\<lambda>m. changes (body_of fs_abc m)) [?A])"
    "ledger (committed (db c')) = Some ([] @ rows')"
    "map row_name rows' = map name [?A]"
    "name ?B \<notin> set (map row_name ([] @ rows'))"
    "sent c' = sent c_empty @ concat (map (\<lambda>m. [Text ''BEGIN;'', Script (body_of fs_abc m),
                        Text (insert_sql (name m) (filename m)), Text ''COMMIT;'']) [?A])
                     @ [Text ''BEGIN;'', Script (body_of fs_abc ?B), Text ''ROLLBACK;'']"
    by blast
  then have final: "runPending fs_abc c_empty = (Inr False, c') \<and>
      schema (committed (db c')) = [''a''] \<and>
      ledger (committed (db c')) = Some rows' \<and>
      map row_name rows' = [''1_a''] \<and>
      ''2_b'' \<notin> set (map row_name rows') \<and>
      sent c' = [Text ''BEGIN;'', Script [Change ''a''], Text (insert_sql ''1_a'' ''1_a.sql''),
                 Text ''COMMIT;'', Text ''BEGIN;'',
                 Script [Change ''b1'', Raise syntax_error, Change ''b2''], Text ''ROLLBACK;'']"
    by (simp add: bodies names) (simp add: c_empty_def)
  show ?thesis by (rule exI [of _ c'], rule exI [of _ rows'], rule final)
qed

lemma applyMigration_no_ledger:
  assumes "readFileSync fs (path m) = Inr body" "txn (db c) = None" "script c = []"
    "failure body = None" "ledger (committed (db c)) = None"
  shows "\<exists>c'. applyMigration fs m c = (Inr True, c') \<and> script c' = [] \<and> txn (db c') = None \<and>
           committed (db c') = committed (db c) \<and>
           sent c' = sent c @ [Text ''BEGIN;'', Script body,
                               Text (insert_sql (name m) (filename m)), Text ''COMMIT;'']"
proof -
  from applyMigration_body_ok [OF assms(1,2,3,4)] obtain c' where
    c': "applyMigration fs m c = (Inr True, c')" "script c' = []" "txn (db c') = None"
      "sent c' = sent c @ [Text ''BEGIN;'', Script body,
                           Text (insert_sql (name m) (filename m)), Text ''COMMIT;'']"
      "committed (db c') = committed (db c) \<or>
         (\<exists>rows row. ledger (committed (db c)) = Some rows \<and>
            committed (db c') = (committed (db c))\<lparr>schema := schema (committed (db c)) @ changes body,
                                                  ledger := Some (rows @ [row])\<rparr>)"
    by blast
  from c'(5) assms(5) have "committed (db c') = committed (db c)" by auto
  with c'(1,2,3,4) show ?thesis by blast
qed

lemma getApplied_no_ledger:
  assumes "script c = []" "txn (db c) = None" "ledger (committed (db c)) = None"
  shows "getAppliedMigrations c = ([], c)"
proof -
  have "c\<lparr>script := []\<rparr> = c" using assms(1) by simp
  then show ?thesis using assms
    by (simp add: getAppliedMigrations_def select_all_def select_ledger_def read_applied_def
        undefined_table_def)
qed

text \<open>
  Claim C2, where the code departs from it. \<^verbatim>\<open>applyMigration\<close> reads the error of the
  migration's SQL but not the error of the insert into the ledger nor of \<^verbatim>\<open>COMMIT\<close>, so
  a migration whose ledger write fails counts as applied and the loop goes on. On a
  database where \<^verbatim>\<open>init\<close> has not run, with the three migrations of which the second
  raises: the call for the first returns \<^verbatim>\<open>true\<close>, the loop goes on to the second and
  the run ends with \<^verbatim>\<open>false\<close>, and the first migration is neither applied nor
  ledgered. With two migrations that both succeed the run sends both, returns \<^verbatim>\<open>true\<close>
  and nothing is committed.
\<close>

theorem runPending_before_init:
  "fst (applyMigration fs_abc (migration_of ''1_a.sql'') c_uninit) = Inr True \<and>
   fst (runPending fs_abc c_uninit) = Inr False \<and>
   committed (db (snd (runPending fs_abc c_uninit))) = \<lparr>schema = [], ledger = None\<rparr> \<and>
   sent (snd (runPending fs_abc c_uninit))
     = [Text ''BEGIN;'', Script [Change ''a''], Text (insert_sql ''1_a'' ''1_a.sql''),
        Text ''COMMIT;'', Text ''BEGIN;'',
        Script [Change ''b1'', Raise syntax_error, Change ''b2''], Text ''ROLLBACK;''] \<and>
   fst (runPending fs_ac c_uninit) = Inr True \<and>
   committed (db (snd (runPending fs_ac c_uninit))) = \<lparr>schema = [], ledger = None\<rparr> \<and>
   sent (snd (runPending fs_ac c_uninit))
     = [Text ''BEGIN;'', Script [Change ''a''], Text (insert_sql ''1_a'' ''1_a.sql''),
        Text ''COMMIT;'', Text ''BEGIN;'', Script [Change ''c''],
        Text (insert_sql ''3_c'' ''3_c.sql''), Text ''COMMIT;'']"
proof -
  let ?A = "migration_of ''1_a.sql''" and ?B = "migration_of ''2_b.sql''"
    and ?C = "migration_of ''3_c.sql''"
  have s: "script c_uninit = []" and t: "txn (db c_uninit) = None"
    and l: "ledger (committed (db c_uninit)) = None" and sn: "sent c_uninit = []"
    and k: "committed (db c_uninit) = \<lparr>schema = [], ledger = None\<rparr>"
    by (simp_all add: c_uninit_def)
  have names: "name ?A = ''1_a''" "filename ?A = ''1_a.sql''" "name ?C = ''3_c''"
    "filename ?C = ''3_c.sql''"
    by (simp_all add: migration_of_def)
  have cat: "getMigrations fs_abc = Inr [?A, ?B, ?C]"
    by (simp add: getMigrations_def existsSync_def readdirSync_def endsWith_def fs_abc_def)
  have cat2: "getMigrations fs_ac = Inr [?A, ?C]"
    by (simp add: getMigrations_def existsSync_def readdirSync_def endsWith_def fs_ac_def)
  have pend: "getPendingMigrations fs_abc c_uninit = (Inr [?A, ?B, ?C], c_uninit)"
    by (simp add: getPendingMigrations_def cat getApplied_no_ledger [OF s t l])
  have pend2: "getPendingMigrations fs_ac c_uninit = (Inr [?A, ?C], c_uninit)"
    by (simp add: getPendingMigrations_def cat2 getApplied_no_ledger [OF s t l])
  have ra: "readFileSync fs_abc (path ?A) = Inr [Change ''a'']"
    and rb: "readFileSync fs_abc (path ?B) = Inr [Change ''b1'', Raise syntax_error, Change ''b2'']"
    and ra2: "readFileSync fs_ac (path ?A) = Inr [Change ''a'']"
    and rc2: "readFileSync fs_ac (path ?C) = Inr [Change ''c'']"
    by (simp_all add: readFileSync_def fs_abc_def fs_ac_def migration_of_def join_def)
  have fa: "failure [Change ''a''] = None" and fc: "failure [Change ''c''] = None"
    and fb: "failure [Change ''b1'', Raise syntax_error, Change ''b2''] \<noteq> None"
    by simp_all
  from applyMigration_no_ledger [OF ra t s fa l] obtain c1 where
    c1: "applyMigration fs_abc ?A c_uninit = (Inr True, c1)" "script c1 = []" "txn (db c1) = None"
      "committed (db c1) = committed (db c_uninit)"
      "sent c1 = sent c_uninit @ [Text ''BEGIN;'', Script [Change ''a''],
                                  Text (insert_sql (name ?A) (filename ?A)), Text ''COMMIT;'']"
    by blast
  from applyMigration_body_fails [OF rb c1(3) c1(2) fb] obtain c2 where
    c2: "applyMigration fs_abc ?B c1 = (Inr False, c2)" "committed (db c2) = committed (db c1)"
      "sent c2 = sent c1 @ [Text ''BEGIN;'',
                            Script [Change ''b1'', Raise syntax_error, Change ''b2''],
                            Text ''ROLLBACK;'']"
    by blast
  have run: "runPending fs_abc c_uninit = (Inr False, c2)"
    by (simp add: runPending_def pend c1(1) c2(1))
  from applyMigration_no_ledger [OF ra2 t s fa l] obtain d1 where
    d1: "applyMigration fs_ac ?A c_uninit = (Inr True, d1)" "script d1 = []" "txn (db d1) = None"
      "committed (db d1) = committed (db c_uninit)"
      "sent d1 = sent c_uninit @ [Text ''BEGIN;'', Script [Change ''a''],
                                  Text (insert_sql (name ?A) (filename ?A)), Text ''COMMIT;'']"
    by blast
  have l1: "ledger (committed (db d1)) = None" by (simp add: d1(4) l)
  from applyMigration_no_ledger [OF rc2 d1(3) d1(2) fc l1] obtain d2 where
    d2: "applyMigration fs_ac ?C d1 = (Inr True, d2)"
      "committed (db d2) = committed (db d1)"
      "sent d2 = sent d1 @ [Text ''BEGIN;'', Script [Change ''c''],
                            Text (insert_sql (name ?C) (filename ?C)), Text ''COMMIT;'']"
    by blast
  have run2: "runPending fs_ac c_uninit = (Inr True, d2)"
    by (simp add: runPending_def pend2 d1(1) d2(1))
  show ?thesis
    by (simp add: run run2 c1 c2 d1 d2 k sn names)
qed


subsection \<open>Reading the ledger\<close>

lemma getApplied_cases:
  "fst (getAppliedMigrations c)
     = (case fst (select_all c) of Inr (Some rows, None) \<Rightarrow> rows | _ \<Rightarrow> [])"
  by (simp add: getAppliedMigrations_def read_applied_def
      split: prod.splits sum.splits option.splits)

text \<open>
  Claim C3, as amended. \<^verbatim>\<open>getAppliedMigrations\<close> never raises. When the query
  resolves with rows and no error it returns the rows. In every other case it returns
  the empty array: for the error code 42P01 of a missing table, and as well for any
  other error and for a rejected call, which the \<^verbatim>\<open>catch\<close> block turns into a warning.
  A failed read does not abort the run: planning goes on with an empty applied list, so
  the whole catalog is pending. On a session whose ledger table does not exist the
  query resolves with 42P01 and the result is empty.
\<close>

theorem getAppliedMigrations_never_raises:
  "(\<forall>rows. fst (select_all c) = Inr (Some rows, None) \<longrightarrow> fst (getAppliedMigrations c) = rows) \<and>
   ((\<forall>rows. fst (select_all c) \<noteq> Inr (Some rows, None)) \<longrightarrow>
      fst (getAppliedMigrations c) = [] \<and>
      (\<forall>ms. getMigrations fs = Inr ms \<longrightarrow> fst (getPendingMigrations fs c) = Inr ms)) \<and>
   (script c = [] \<and> txn (db c) = None \<and> ledger (committed (db c)) = None \<longrightarrow>
      fst (select_all c) = Inr (None, Some undefined_table) \<and> fst (getAppliedMigrations c) = [])"
proof (intro conjI allI impI)
  fix rows assume "fst (select_all c) = Inr (Some rows, None)"
  then show "fst (getAppliedMigrations c) = rows" by (simp add: getApplied_cases)
next
  assume h: "\<forall>rows. fst (select_all c) \<noteq> Inr (Some rows, None)"
  then show e: "fst (getAppliedMigrations c) = []"
    by (auto simp: getApplied_cases split: sum.splits option.splits)
  fix ms assume "getMigrations fs = Inr ms"
  then show "fst (getPendingMigrations fs c) = Inr ms"
    using e by (cases "getAppliedMigrations c") (simp add: getPendingMigrations_def Let_def)
next
  assume h: "script c = [] \<and> txn (db c) = None \<and> ledger (committed (db c)) = None"
  then show s: "fst (select_all c) = Inr (None, Some undefined_table)"
    by (simp add: select_all_def select_ledger_def)
  then show "fst (getAppliedMigrations c) = []" by (simp add: getApplied_cases)
qed

theorem getAppliedMigrations_never_raises_witness:
  "fst (getAppliedMigrations (c_applied\<lparr>script := [Reject connection_failure]\<rparr>)) = [] \<and>
   fst (getPendingMigrations fs_a (c_applied\<lparr>script := [Reject connection_failure]\<rparr>))
     = Inr [migration_of ''1_a.sql''] \<and>
   fst (getAppliedMigrations (c_empty\<lparr>db := (db c_empty)\<lparr>committed := \<lparr>schema = [], ledger = None\<rparr>\<rparr>\<rparr>)) = [] \<and>
   fst (getAppliedMigrations c_applied)
     = [\<lparr>row_name = ''1_a'', row_filename = ''1_a.sql'', applied_at = 0\<rparr>]"
proof -
  let ?c = "c_applied\<lparr>script := [Reject connection_failure]\<rparr>"
  let ?b = "c_empty\<lparr>db := (db c_empty)\<lparr>committed := \<lparr>schema = [], ledger = None\<rparr>\<rparr>\<rparr>"
  have sel: "\<forall>rows. fst (select_all ?c) \<noteq> Inr (Some rows, None)"
    by (simp add: select_all_def)
  have cat: "getMigrations fs_a = Inr [migration_of ''1_a.sql'']"
    by (simp add: getMigrations_def existsSync_def readdirSync_def endsWith_def fs_a_def)
  have boot: "script ?b = [] \<and> txn (db ?b) = None \<and> ledger (committed (db ?b)) = None"
    by (simp add: c_empty_def)
  have ok: "fst (select_all c_applied)
              = Inr (Some [\<lparr>row_name = ''1_a'', row_filename = ''1_a.sql'', applied_at = 0\<rparr>], None)"
    by (simp add: select_all_def select_ledger_def c_applied_def)
  from getAppliedMigrations_never_raises [of ?c fs_a] sel cat
  have 1: "fst (getAppliedMigrations ?c) = []"
    "fst (getPendingMigrations fs_a ?c) = Inr [migration_of ''1_a.sql'']"
    by blast+
  from getAppliedMigrations_never_raises [of ?b fs_a] boot
  have 2: "fst (getAppliedMigrations ?b) = []" by blast
  from getAppliedMigrations_never_raises [of c_applied fs_a] ok
  have 3: "fst (getAppliedMigrations c_applied)
     = [\<lparr>row_name = ''1_a'', row_filename = ''1_a.sql'', applied_at = 0\<rparr>]" by blast
  from 1 2 3 show ?thesis by blast
qed

text \<open>
  The claim as stated fails: with a record in the ledger, a rejected query, an error
  other than 42P01 and an aborted session all give the empty array, and the run goes
  on, sending the SQL of the migration already applied and returning \<^verbatim>\<open>true\<close>.
\<close>

theorem getAppliedMigrations_swallows_counterexample:
  "ledger (committed (db c_applied))
     = Some [\<lparr>row_name = ''1_a'', row_filename = ''1_a.sql'', applied_at = 0\<rparr>] \<and>
   fst (getAppliedMigrations (c_applied\<lparr>script := [Reject connection_failure]\<rparr>)) = [] \<and>
   read_applied (Inr (None, Some \<lparr>code = ''42501'', message = ''permission denied''\<rparr>))
     = Inl (Pg \<lparr>code = ''42501'', message = ''permission denied''\<rparr>) \<and>
   fst (getAppliedMigrations
          (c_applied\<lparr>db := (db c_applied)\<lparr>txn := Some \<lparr>work = committed (db c_applied),
                                                      aborted = True, started = 1\<rparr>\<rparr>\<rparr>)) = [] \<and>
   fst (runPending fs_a (c_applied\<lparr>script := [Reject connection_failure]\<rparr>)) = Inr True \<and>
   sent (snd (runPending fs_a (c_applied\<lparr>script := [Reject connection_failure]\<rparr>)))
     = [Text ''BEGIN;'', Script [Change ''a''], Text (insert_sql ''1_a'' ''1_a.sql''), Text ''COMMIT;'']"
proof -
  let ?c = "c_applied\<lparr>script := [Reject connection_failure]\<rparr>"
  let ?c1 = "c_applied\<lparr>script := []\<rparr>"
  have ga: "getAppliedMigrations ?c = ([], ?c1)"
    by (simp add: getAppliedMigrations_def select_all_def read_applied_def)
  have cat: "getMigrations fs_a = Inr [migration_of ''1_a.sql'']"
    by (simp add: getMigrations_def existsSync_def readdirSync_def endsWith_def fs_a_def)
  have pend: "getPendingMigrations fs_a ?c = (Inr [migration_of ''1_a.sql''], ?c1)"
    by (simp add: getPendingMigrations_def cat ga)
  have rd: "readFileSync fs_a (path (migration_of ''1_a.sql'')) = Inr [Change ''a'']"
    by (simp add: readFileSync_def fs_a_def migration_of_def join_def)
  have t: "txn (db ?c1) = None" and s: "script ?c1 = []" and sn: "sent ?c1 = []"
    by (simp_all add: c_applied_def)
  have f: "failure [Change ''a''] = None" by simp
  from applyMigration_body_ok [OF rd t s f] obtain c' where
    c': "applyMigration fs_a (migration_of ''1_a.sql'') ?c1 = (Inr True, c')"
      "sent c' = sent ?c1 @ [Text ''BEGIN;'', Script [Change ''a''],
          Text (insert_sql (name (migration_of ''1_a.sql'')) (filename (migration_of ''1_a.sql''))),
          Text ''COMMIT;'']"
    by blast
  have run: "runPending fs_a ?c = (Inr True, c')"
    by (simp add: runPending_def pend c'(1))
  have names: "name (migration_of ''1_a.sql'') = ''1_a''" "filename (migration_of ''1_a.sql'') = ''1_a.sql''"
    by (simp_all add: migration_of_def)
  have 1: "ledger (committed (db c_applied))
     = Some [\<lparr>row_name = ''1_a'', row_filename = ''1_a.sql'', applied_at = 0\<rparr>]"
    by (simp add: c_applied_def)
  have 2: "read_applied (Inr (None, Some \<lparr>code = ''42501'', message = ''permission denied''\<rparr>))
     = Inl (Pg \<lparr>code = ''42501'', message = ''permission denied''\<rparr>)"
    by (simp add: read_applied_def)
  have 3: "fst (getAppliedMigrations
          (c_applied\<lparr>db := (db c_applied)\<lparr>txn := Some \<lparr>work = committed (db c_applied),
                                                      aborted = True, started = 1\<rparr>\<rparr>\<rparr>)) = []"
    by (simp add: getAppliedMigrations_def select_all_def select_ledger_def read_applied_def
        c_applied_def in_failed_transaction_def)
  show ?thesis using 1 2 3 by (simp add: run ga c'(2) sn names)
qed

subsection \<open>Status\<close>

text \<open>
  Claim C10, as amended. With an empty catalog \<^verbatim>\<open>status\<close> divides by a total of 0
  without a guard and returns normally: the rate is \<^verbatim>\<open>NaN\<close> when no applied record was
  read (0/0) and \<^verbatim>\<open>Infinity\<close> when some were.
\<close>

theorem status_rate_empty_catalog:
  "getMigrations fs = Inr [] \<Longrightarrow>
     \<exists>report c'. status fs c = (Inr report, c') \<and>
        total report = 0 \<and>
        applied_count report = length (fst (getAppliedMigrations c)) \<and>
        rate report = (if fst (getAppliedMigrations c) = [] then NaN else Infinity)"
  by (auto simp: status_def getPendingMigrations_def Let_def js_divide_def js_times_def
      split: prod.splits)

theorem status_rate_empty_catalog_witness:
  "\<exists>report c'. status \<lparr>dir = Some []\<rparr> c_empty = (Inr report, c') \<and> rate report = NaN"
proof -
  have cat: "getMigrations \<lparr>dir = Some []\<rparr> = Inr []"
    by (simp add: getMigrations_def existsSync_def readdirSync_def)
  have s: "script c_empty = []" and t: "txn (db c_empty) = None"
    and l: "ledger (committed (db c_empty)) = Some []"
    by (simp_all add: c_empty_def)
  have "fst (getAppliedMigrations c_empty) = []"
    by (simp add: getApplied_delivered [OF s t l])
  with status_rate_empty_catalog [OF cat, of c_empty] show ?thesis by auto
qed

text \<open>
  The claim as stated fails when the ledger holds a record and the catalog is empty:
  the division is 1/0 and the rate is \<^verbatim>\<open>Infinity\<close>.
\<close>

theorem status_rate_counterexample:
  "getMigrations \<lparr>dir = Some []\<rparr> = Inr [] \<and>
   map_sum id rate (fst (status \<lparr>dir = Some []\<rparr> c_applied)) = Inr Infinity"
proof -
  have cat: "getMigrations \<lparr>dir = Some []\<rparr> = Inr []"
    by (simp add: getMigrations_def existsSync_def readdirSync_def)
  have s: "script c_applied = []" and t: "txn (db c_applied) = None"
    and l: "ledger (committed (db c_applied))
              = Some [\<lparr>row_name = ''1_a'', row_filename = ''1_a.sql'', applied_at = 0\<rparr>]"
    by (simp_all add: c_applied_def)
  show ?thesis
    by (simp add: cat status_def getPendingMigrations_def getApplied_delivered [OF s t l]
        js_divide_def js_times_def)
qed

subsection \<open>Rolling back\<close>

lemma delivers_Suc:
  assumes "delivers (Suc k) c"
  shows "(script c = [] \<or> (\<exists>s. script c = Deliver # s)) \<and> delivers k (c\<lparr>script := tl (script c)\<rparr>)"
  using assms by (cases "script c") (auto simp: delivers_def)

lemma rpc_deliver:
  assumes "delivers (Suc k) c"
  shows "rpc q c = (Inr (fst (exec_sql q (db c))),
                    c\<lparr>script := tl (script c), sent := sent c @ [q], db := snd (exec_sql q (db c))\<rparr>)"
  using delivers_Suc [OF assms] by (auto simp: rpc_def split: prod.splits)

lemma getApplied_deliver:
  assumes "delivers (Suc k) c" "txn (db c) = None" "ledger (committed (db c)) = Some rows"
  shows "getAppliedMigrations c = (sort_key applied_at rows, c\<lparr>script := tl (script c)\<rparr>)"
  using delivers_Suc [OF assms(1)] assms(2,3)
  by (auto simp: getAppliedMigrations_def select_all_def select_ledger_def read_applied_def)

lemma exec_delete_txn:
  assumes "txn d = Some t" "\<not> aborted t" "sq \<notin> set n" "ledger (work t) = Some rows"
  shows "exec_sql (Text (delete_sql n)) d
           = (None, d\<lparr>txn := Some (t\<lparr>work := (work t)\<lparr>ledger :=
                 Some (filter (\<lambda>r. row_name r \<noteq> n) rows)\<rparr>\<rparr>)\<rparr>)"
  using assms
  by (simp add: exec_sql_def parse_sql_delete run_command_def run_statement_def ledger_delete_def)

lemma revert_one_delivered:
  assumes "delivers (3 + k) c" "txn (db c) = None" "ledger (committed (db c)) = Some rows"
    "sq \<notin> set (row_name r)"
  shows "\<exists>c'. revert_one r c = (Inr True, c') \<and> delivers k c' \<and>
           script c' = drop 3 (script c) \<and> txn (db c') = None \<and>
           committed (db c') = (committed (db c))\<lparr>ledger :=
               Some (filter (\<lambda>x. row_name x \<noteq> row_name r) rows)\<rparr> \<and>
           sent c' = sent c @ [Text ''BEGIN;'', Text (delete_sql (row_name r)), Text ''COMMIT;'']"
proof -
  let ?q = "Text (delete_sql (row_name r))"
  define c1 where "c1 = c\<lparr>script := tl (script c), sent := sent c @ [Text ''BEGIN;''],
                          db := snd (exec_sql (Text ''BEGIN;'') (db c))\<rparr>"
  define c2 where "c2 = c1\<lparr>script := tl (script c1), sent := sent c1 @ [?q],
                           db := snd (exec_sql ?q (db c1))\<rparr>"
  define c3 where "c3 = c2\<lparr>script := tl (script c2), sent := sent c2 @ [Text ''COMMIT;''],
                           db := snd (exec_sql (Text ''COMMIT;'') (db c2))\<rparr>"
  have d0: "delivers (Suc (Suc (Suc k))) c" using assms(1) by (simp add: numeral_3_eq_3)
  have r1: "rpc (Text ''BEGIN;'') c = (Inr (fst (exec_sql (Text ''BEGIN;'') (db c))), c1)"
    unfolding c1_def by (rule rpc_deliver [OF d0])
  have d1: "delivers (Suc (Suc k)) c1"
    unfolding c1_def using delivers_Suc [OF d0] by (simp add: delivers_def)
  have r2: "rpc ?q c1 = (Inr (fst (exec_sql ?q (db c1))), c2)"
    unfolding c2_def by (rule rpc_deliver [OF d1])
  have d2: "delivers (Suc k) c2"
    unfolding c2_def using delivers_Suc [OF d1] by (simp add: delivers_def)
  have r3: "rpc (Text ''COMMIT;'') c2 = (Inr (fst (exec_sql (Text ''COMMIT;'') (db c2))), c3)"
    unfolding c3_def by (rule rpc_deliver [OF d2])
  have d3: "delivers k c3"
    unfolding c3_def using delivers_Suc [OF d2] by (simp add: delivers_def)
  have run: "revert_one r c = (Inr True, c3)"
    by (simp add: revert_one_def r1 r2 r3)
  let ?t = "\<lparr>work = committed (db c), aborted = False, started = clock (db c)\<rparr>"
  have db1: "db c1 = (db c)\<lparr>txn := Some ?t, clock := Suc (clock (db c))\<rparr>"
    by (simp add: c1_def exec_begin assms(2))
  have t1: "txn (db c1) = Some ?t" by (simp add: db1)
  have db2: "db c2 = (db c1)\<lparr>txn := Some (?t\<lparr>work := (work ?t)\<lparr>ledger :=
                 Some (filter (\<lambda>x. row_name x \<noteq> row_name r) rows)\<rparr>\<rparr>)\<rparr>"
    unfolding c2_def using exec_delete_txn [OF t1 _ assms(4), of rows] assms(3) by simp
  have db3: "committed (db c3) = (committed (db c))\<lparr>ledger :=
               Some (filter (\<lambda>x. row_name x \<noteq> row_name r) rows)\<rparr>" "txn (db c3) = None"
    unfolding c3_def by (simp_all add: db2 exec_commit db1)
  have sc: "script c3 = drop 3 (script c)"
    by (simp add: c3_def c2_def c1_def numeral_3_eq_3 drop_Suc tl_drop)
  have sn: "sent c3 = sent c @ [Text ''BEGIN;'', ?q, Text ''COMMIT;'']"
    by (simp add: c3_def c2_def c1_def)
  show ?thesis using run d3 sc db3 sn by blast
qed


lemma revert_each_delivered:
  assumes "delivers (3 * length rs + k) c" "txn (db c) = None"
    "ledger (committed (db c)) = Some rows" "\<forall>r\<in>set rs. sq \<notin> set (row_name r)"
  shows "\<exists>c'. revert_each (rs @ rest) c = revert_each rest c' \<and> delivers k c' \<and>
           script c' = drop (3 * length rs) (script c) \<and> txn (db c') = None \<and>
           committed (db c') = (committed (db c))\<lparr>ledger :=
               Some (filter (\<lambda>x. row_name x \<notin> set (map row_name rs)) rows)\<rparr> \<and>
           sent c' = sent c @ concat (map (\<lambda>r. [Text ''BEGIN;'', Text (delete_sql (row_name r)),
                                                 Text ''COMMIT;'']) rs)"
  using assms
proof (induction rs arbitrary: c rows)
  case Nil
  then show ?case by (intro exI [of _ c]) simp
next
  case (Cons r rs)
  have d: "delivers (3 + (3 * length rs + k)) c"
    using Cons.prems(1) by (simp add: add.commute add.left_commute)
  have q: "sq \<notin> set (row_name r)" using Cons.prems(4) by simp
  from revert_one_delivered [OF d Cons.prems(2,3) q] obtain c1 where
    c1: "revert_one r c = (Inr True, c1)" "delivers (3 * length rs + k) c1"
      "script c1 = drop 3 (script c)" "txn (db c1) = None"
      "committed (db c1) = (committed (db c))\<lparr>ledger :=
               Some (filter (\<lambda>x. row_name x \<noteq> row_name r) rows)\<rparr>"
      "sent c1 = sent c @ [Text ''BEGIN;'', Text (delete_sql (row_name r)), Text ''COMMIT;'']"
    by blast
  have l1: "ledger (committed (db c1)) = Some (filter (\<lambda>x. row_name x \<noteq> row_name r) rows)"
    by (simp add: c1(5))
  have qs: "\<forall>r\<in>set rs. sq \<notin> set (row_name r)" using Cons.prems(4) by simp
  from Cons.IH [OF c1(2) c1(4) l1 qs] obtain c' where
    c': "revert_each (rs @ rest) c1 = revert_each rest c'" "delivers k c'"
      "script c' = drop (3 * length rs) (script c1)" "txn (db c') = None"
      "committed (db c') = (committed (db c1))\<lparr>ledger :=
          Some (filter (\<lambda>x. row_name x \<notin> set (map row_name rs))
                  (filter (\<lambda>x. row_name x \<noteq> row_name r) rows))\<rparr>"
      "sent c' = sent c1 @ concat (map (\<lambda>r. [Text ''BEGIN;'', Text (delete_sql (row_name r)),
                                                 Text ''COMMIT;'']) rs)"
    by blast
  have 1: "revert_each ((r # rs) @ rest) c = revert_each rest c'"
    by (simp add: c1(1) c'(1))
  have 2: "script c' = drop (3 * length (r # rs)) (script c)"
    by (simp add: c'(3) c1(3) add.commute)
  have f: "filter (\<lambda>x. row_name x \<notin> set (map row_name rs))
                  (filter (\<lambda>x. row_name x \<noteq> row_name r) rows)
             = filter (\<lambda>x. row_name x \<notin> set (map row_name (r # rs))) rows"
    by (induction rows) auto
  have 3: "committed (db c') = (committed (db c))\<lparr>ledger :=
               Some (filter (\<lambda>x. row_name x \<notin> set (map row_name (r # rs))) rows)\<rparr>"
    unfolding c'(5) f by (simp add: c1(5))
  have 4: "sent c' = sent c @ concat (map (\<lambda>r. [Text ''BEGIN;'', Text (delete_sql (row_name r)),
                                                 Text ''COMMIT;'']) (r # rs))"
    by (simp add: c'(6) c1(6))
  show ?case using 1 c'(2) 2 c'(4) 3 4 by blast
qed

lemma exec_delete_keeps_committed:
  assumes "txn d = Some t"
  shows "committed (snd (exec_sql (Text (delete_sql n)) d)) = committed d \<and>
         txn (snd (exec_sql (Text (delete_sql n)) d)) \<noteq> None"
proof -
  from delete_parse_cases [of n] show ?thesis
  proof
    assume "parse_sql (delete_sql n) = None"
    then show ?thesis using assms by (simp add: exec_sql_def run_statement_def)
  next
    assume "\<exists>n'. parse_sql (delete_sql n) = Some (CDelete n')"
    then obtain n' where "parse_sql (delete_sql n) = Some (CDelete n')" by blast
    then show ?thesis using assms
      by (simp add: exec_sql_def run_command_def run_statement_def ledger_delete_def
          split: option.splits)
  qed
qed

text \<open>A call of the round is rejected, and the \<^verbatim>\<open>ROLLBACK\<close> of the \<^verbatim>\<open>catch\<close> block is
  delivered.\<close>

lemma revert_one_rejected:
  assumes "txn (db c) = None" "script c = replicate j Deliver @ Reject e # s" "j < 3"
    "s = [] \<or> hd s = Deliver"
  shows "\<exists>c'. revert_one r c = (Inr False, c') \<and> committed (db c') = committed (db c) \<and>
           txn (db c') = None \<and>
           sent c' = sent c @ take (Suc j) [Text ''BEGIN;'', Text (delete_sql (row_name r)),
                                            Text ''COMMIT;''] @ [Text ''ROLLBACK;'']"
proof -
  let ?q = "Text (delete_sql (row_name r))"
  have rb: "rollback_and_fail x = (Inr False, x\<lparr>script := tl (script x),
              sent := sent x @ [Text ''ROLLBACK;''], db := (db x)\<lparr>txn := None\<rparr>\<rparr>)"
    if "script x = s" for x
    using that assms(4)
    by (cases s) (auto simp: rollback_and_fail_def rpc_def exec_rollback split: outcome.splits)
  from assms(3) consider "j = 0" | "j = 1" | "j = 2" by linarith
  then show ?thesis
  proof cases
    case 1
    then have sc: "script c = Reject e # s" using assms(2) by simp
    have r1: "rpc (Text ''BEGIN;'') c
                = (Inl (Pg e), c\<lparr>script := s, sent := sent c @ [Text ''BEGIN;'']\<rparr>)"
      by (simp add: rpc_def sc)
    show ?thesis using 1 by (simp add: revert_one_def r1 rb)
  next
    case 2
    then have sc: "script c = Deliver # Reject e # s" using assms(2) by simp
    define c1 where "c1 = c\<lparr>script := Reject e # s, sent := sent c @ [Text ''BEGIN;''],
                          db := snd (exec_sql (Text ''BEGIN;'') (db c))\<rparr>"
    have r1: "rpc (Text ''BEGIN;'') c = (Inr (fst (exec_sql (Text ''BEGIN;'') (db c))), c1)"
      by (simp add: rpc_def sc c1_def split: prod.splits)
    have r2: "rpc ?q c1 = (Inl (Pg e), c1\<lparr>script := s, sent := sent c1 @ [?q]\<rparr>)"
      by (simp add: rpc_def c1_def)
    have "committed (db c1) = committed (db c)"
      by (simp add: c1_def exec_begin assms(1))
    then show ?thesis using 2 by (simp add: revert_one_def r1 r2 rb) (simp add: c1_def)
  next
    case 3
    then have sc: "script c = Deliver # Deliver # Reject e # s"
      using assms(2) by (simp add: numeral_2_eq_2)
    define c1 where "c1 = c\<lparr>script := Deliver # Reject e # s, sent := sent c @ [Text ''BEGIN;''],
                          db := snd (exec_sql (Text ''BEGIN;'') (db c))\<rparr>"
    define c2 where "c2 = c1\<lparr>script := Reject e # s, sent := sent c1 @ [?q],
                           db := snd (exec_sql ?q (db c1))\<rparr>"
    have r1: "rpc (Text ''BEGIN;'') c = (Inr (fst (exec_sql (Text ''BEGIN;'') (db c))), c1)"
      by (simp add: rpc_def sc c1_def split: prod.splits)
    have r2: "rpc ?q c1 = (Inr (fst (exec_sql ?q (db c1))), c2)"
      by (simp add: rpc_def c1_def c2_def split: prod.splits)
    have r3: "rpc (Text ''COMMIT;'') c2
                = (Inl (Pg e), c2\<lparr>script := s, sent := sent c2 @ [Text ''COMMIT;'']\<rparr>)"
      by (simp add: rpc_def c2_def)
    have t1: "txn (db c1) = Some \<lparr>work = committed (db c), aborted = False, started = clock (db c)\<rparr>"
      and k1: "committed (db c1) = committed (db c)"
      by (simp_all add: c1_def exec_begin assms(1))
    have "committed (db c2) = committed (db c)"
      using exec_delete_keeps_committed [OF t1, of "row_name r"] k1 by (simp add: c2_def)
    then show ?thesis using 3
      by (simp add: revert_one_def r1 r2 r3 rb) (simp add: c2_def c1_def)
  qed
qed


lemma slice_neg_subset: "set (slice_neg steps xs) \<subseteq> set xs"
  by (auto simp: slice_neg_def Let_def dest: in_set_dropD split: js_number.splits option.splits)

lemma slice_neg_positive: "0 < n \<Longrightarrow> slice_neg (Finite (of_nat n)) xs = drop (length xs - n) xs"
proof -
  assume n: "0 < n"
  have "\<lceil>- (of_nat n :: rat)\<rceil> = - int n" by (simp add: ceiling_minus)
  moreover have "nat (max (int (length xs) - int n) 0) = length xs - n" by linarith
  ultimately show ?thesis using n by (simp add: slice_neg_def Let_def)
qed

lemma slice_neg_zero: "slice_neg (Finite 0) xs = xs"
  by (simp add: slice_neg_def Let_def)

lemma to_rollback_positive:
  "0 < n \<Longrightarrow> migrationsToRollback (Finite (of_nat n)) xs = take n (rev xs)"
  by (simp add: migrationsToRollback_def slice_neg_positive take_rev)

lemma to_rollback_quote_free:
  assumes "\<forall>r\<in>set rows. sq \<notin> set (row_name r)"
  shows "\<forall>r\<in>set (migrationsToRollback steps (sort_key applied_at rows)). sq \<notin> set (row_name r)"
  using assms slice_neg_subset [of steps "sort_key applied_at rows"]
  by (auto simp: migrationsToRollback_def)

lemma sort_key_empty: "(sort_key f xs = []) = (xs = [])"
  by (metis length_0_conv length_sort)

lemma rollback_delivered:
  assumes "txn (db c) = None" "ledger (committed (db c)) = Some rows"
    "\<forall>r\<in>set rows. sq \<notin> set (row_name r)"
    "sel = migrationsToRollback steps (sort_key applied_at rows)"
    "delivers (Suc (3 * length sel)) c"
  shows "\<exists>c'. rollback steps c = (Inr True, c') \<and> txn (db c') = None \<and>
           committed (db c') = (committed (db c))\<lparr>ledger :=
               Some (filter (\<lambda>x. row_name x \<notin> set (map row_name sel)) rows)\<rparr> \<and>
           sent c' = sent c @ concat (map (\<lambda>r. [Text ''BEGIN;'', Text (delete_sql (row_name r)),
                                                 Text ''COMMIT;'']) sel)"
proof -
  let ?c1 = "c\<lparr>script := tl (script c)\<rparr>"
  have ga: "getAppliedMigrations c = (sort_key applied_at rows, ?c1)"
    by (rule getApplied_deliver [OF assms(5,1,2)])
  have d1: "delivers (3 * length sel + 0) ?c1"
    using delivers_Suc [OF assms(5)] by simp
  show ?thesis
  proof (cases "rows = []")
    case True
    then have "sel = []" using assms(4) slice_neg_subset [of steps "[]"]
      by (simp add: migrationsToRollback_def)
    moreover have "(committed (db c))\<lparr>ledger := Some []\<rparr> = committed (db c)"
      using assms(2) True by simp
    ultimately show ?thesis using True assms(1)
      by (intro exI [of _ ?c1]) (simp add: rollback_def ga)
  next
    case False
    have q: "\<forall>r\<in>set sel. sq \<notin> set (row_name r)"
      unfolding assms(4) by (rule to_rollback_quote_free [OF assms(3)])
    have t1: "txn (db ?c1) = None" and l1: "ledger (committed (db ?c1)) = Some rows"
      using assms(1,2) by simp_all
    from revert_each_delivered [OF d1 t1 l1 q, of "[]"] obtain c' where
      c': "revert_each (sel @ []) ?c1 = revert_each [] c'" "txn (db c') = None"
        "committed (db c') = (committed (db ?c1))\<lparr>ledger :=
               Some (filter (\<lambda>x. row_name x \<notin> set (map row_name sel)) rows)\<rparr>"
        "sent c' = sent ?c1 @ concat (map (\<lambda>r. [Text ''BEGIN;'', Text (delete_sql (row_name r)),
                                                 Text ''COMMIT;'']) sel)"
      by blast
    have "rollback steps c = (Inr True, c')"
      using False c'(1) by (simp add: rollback_def ga assms(4) sort_key_empty)
    then show ?thesis using c'(2,3,4) by (intro exI [of _ c']) simp
  qed
qed

lemma rollback_rejected:
  assumes "txn (db c) = None" "ledger (committed (db c)) = Some rows"
    "\<forall>r\<in>set rows. sq \<notin> set (row_name r)"
    "sel = migrationsToRollback steps (sort_key applied_at rows)"
    "k < length sel" "j < 3"
    "script c = replicate (Suc (3 * k + j)) Deliver @ Reject e # s" "s = [] \<or> hd s = Deliver"
  shows "\<exists>c'. rollback steps c = (Inr False, c') \<and> txn (db c') = None \<and>
           committed (db c') = (committed (db c))\<lparr>ledger :=
               Some (filter (\<lambda>x. row_name x \<notin> set (map row_name (take k sel))) rows)\<rparr> \<and>
           sent c' = sent c @ concat (map (\<lambda>r. [Text ''BEGIN;'', Text (delete_sql (row_name r)),
                                                 Text ''COMMIT;'']) (take k sel))
                     @ take (Suc j) [Text ''BEGIN;'', Text (delete_sql (row_name (sel ! k))),
                                     Text ''COMMIT;''] @ [Text ''ROLLBACK;'']"
proof -
  let ?c1 = "c\<lparr>script := tl (script c)\<rparr>"
  have d: "delivers (Suc 0) c" by (simp add: delivers_def assms(7))
  have ga: "getAppliedMigrations c = (sort_key applied_at rows, ?c1)"
    by (rule getApplied_deliver [OF d assms(1,2)])
  have s1: "script ?c1 = replicate (3 * k) Deliver @ replicate j Deliver @ Reject e # s"
    by (simp add: assms(7) replicate_add)
  have d1: "delivers (3 * length (take k sel) + 0) ?c1"
    using assms(5) by (simp add: delivers_def s1 list_all_iff)
  have "rows \<noteq> []" using assms(4,5) slice_neg_subset [of steps "sort_key applied_at rows"]
    by (auto simp: migrationsToRollback_def)
  then have ne: "length (sort_key applied_at rows) \<noteq> 0" by simp
  have q: "\<forall>r\<in>set (take k sel). sq \<notin> set (row_name r)"
    using to_rollback_quote_free [OF assms(3), of steps] assms(4) by (auto dest: in_set_takeD)
  have t1: "txn (db ?c1) = None" and l1: "ledger (committed (db ?c1)) = Some rows"
    using assms(1,2) by simp_all
  have parts: "sel = take k sel @ (sel ! k) # drop (Suc k) sel"
    using assms(5) by (simp add: id_take_nth_drop)
  from revert_each_delivered [OF d1 t1 l1 q, of "(sel ! k) # drop (Suc k) sel"] obtain c2 where
    c2: "revert_each (take k sel @ (sel ! k) # drop (Suc k) sel) ?c1
           = revert_each ((sel ! k) # drop (Suc k) sel) c2"
      "script c2 = drop (3 * length (take k sel)) (script ?c1)" "txn (db c2) = None"
      "committed (db c2) = (committed (db ?c1))\<lparr>ledger :=
               Some (filter (\<lambda>x. row_name x \<notin> set (map row_name (take k sel))) rows)\<rparr>"
      "sent c2 = sent ?c1 @ concat (map (\<lambda>r. [Text ''BEGIN;'', Text (delete_sql (row_name r)),
                                                 Text ''COMMIT;'']) (take k sel))"
    by blast
  have s2: "script c2 = replicate j Deliver @ Reject e # s"
    using assms(5) by (simp add: c2(2) s1)
  from revert_one_rejected [OF c2(3) s2 assms(6,8), of "sel ! k"] obtain c' where
    c': "revert_one (sel ! k) c2 = (Inr False, c')" "committed (db c') = committed (db c2)"
      "txn (db c') = None"
      "sent c' = sent c2 @ take (Suc j) [Text ''BEGIN;'', Text (delete_sql (row_name (sel ! k))),
                                         Text ''COMMIT;''] @ [Text ''ROLLBACK;'']"
    by blast
  have "revert_each sel ?c1 = (Inr False, c')"
    using c2(1) parts by (simp add: c'(1))
  then have "rollback steps c = (Inr False, c')"
    using ne by (simp add: rollback_def ga assms(4) sort_key_empty)
  then show ?thesis using c'(2,3,4) c2(4,5) by (intro exI [of _ c']) simp
qed


lemma recent_first:
  assumes "sorted (map f xs)"
  shows "\<forall>x\<in>set (drop n (rev xs)). \<forall>y\<in>set (take n (rev xs)). f x \<le> (f y :: nat)"
proof -
  have "sorted_wrt (\<lambda>a b. f b \<le> f a) (rev xs)"
    using assms by (simp add: sorted_map sorted_wrt_rev)
  then have "sorted_wrt (\<lambda>a b. f b \<le> f a) (take n (rev xs) @ drop n (rev xs))"
    by simp
  then show ?thesis unfolding sorted_wrt_append by blast
qed

lemma recent_descending:
  assumes "sorted (map f xs)"
  shows "sorted (rev (map f (take n (rev xs))))"
proof -
  have "rev (map f (take n (rev xs))) = map f (drop (length xs - n) xs)"
    by (simp add: rev_map rev_take)
  also have "\<dots> = drop (length xs - n) (map f xs)" by (simp add: drop_map)
  finally show ?thesis using assms by (simp add: sorted_wrt_drop)
qed

text \<open>
  \<^verbatim>\<open>rollback(n)\<close> for \<open>n \<ge> 1\<close>, on a session with no open transaction whose ledger
  records have names without quote characters, so that no \<^verbatim>\<open>DELETE\<close> fails in the
  database. The records selected are the first \<open>n\<close> of the applied list read in
  descending order of \<open>applied_at\<close>: they are in descending order, and no record left
  out is more recent than a selected one. When the calls are delivered, each selected
  record is reverted in that order, in a transaction of its own that deletes its ledger
  record; the result is \<^verbatim>\<open>true\<close> and the ledger has lost exactly the selected records.
  When a call of the round of the \<open>k\<close>-th selected record is rejected, the loop stops
  there: the result is \<^verbatim>\<open>false\<close>, the records before it are removed, that record and
  the later ones stay, and the calls end with the \<^verbatim>\<open>ROLLBACK\<close> of the \<^verbatim>\<open>catch\<close> block.
\<close>

lemma rollback_recent:
  assumes "0 < n" "txn (db c) = None" "ledger (committed (db c)) = Some rows"
    "\<forall>r\<in>set rows. sq \<notin> set (row_name r)"
    "sel = take n (rev (sort_key applied_at rows))"
  shows
    "migrationsToRollback (Finite (of_nat n)) (sort_key applied_at rows) = sel \<and>
     sorted (rev (map applied_at sel)) \<and>
     (\<forall>x\<in>set (drop n (rev (sort_key applied_at rows))). \<forall>y\<in>set sel. applied_at x \<le> applied_at y) \<and>
     (delivers (Suc (3 * length sel)) c \<longrightarrow>
        (\<exists>c'. rollback (Finite (of_nat n)) c = (Inr True, c') \<and> txn (db c') = None \<and>
           committed (db c') = (committed (db c))\<lparr>ledger :=
               Some (filter (\<lambda>x. row_name x \<notin> set (map row_name sel)) rows)\<rparr> \<and>
           sent c' = sent c @ concat (map (\<lambda>r. [Text ''BEGIN;'', Text (delete_sql (row_name r)),
                                                 Text ''COMMIT;'']) sel))) \<and>
     (\<forall>k j e s. k < length sel \<and> j < 3 \<and>
          script c = replicate (Suc (3 * k + j)) Deliver @ Reject e # s \<and>
          (s = [] \<or> hd s = Deliver) \<longrightarrow>
        (\<exists>c'. rollback (Finite (of_nat n)) c = (Inr False, c') \<and> txn (db c') = None \<and>
           committed (db c') = (committed (db c))\<lparr>ledger :=
               Some (filter (\<lambda>x. row_name x \<notin> set (map row_name (take k sel))) rows)\<rparr> \<and>
           sent c' = sent c @ concat (map (\<lambda>r. [Text ''BEGIN;'', Text (delete_sql (row_name r)),
                                                 Text ''COMMIT;'']) (take k sel))
                     @ take (Suc j) [Text ''BEGIN;'', Text (delete_sql (row_name (sel ! k))),
                                     Text ''COMMIT;''] @ [Text ''ROLLBACK;'']))"
proof (intro conjI allI impI)
  show sel: "migrationsToRollback (Finite (of_nat n)) (sort_key applied_at rows) = sel"
    using assms(1,5) by (simp add: to_rollback_positive)
  have srt: "sorted (map applied_at (sort_key applied_at rows))" by simp
  show "sorted (rev (map applied_at sel))"
    unfolding assms(5) by (rule recent_descending [OF srt])
  show "\<forall>x\<in>set (drop n (rev (sort_key applied_at rows))). \<forall>y\<in>set sel. applied_at x \<le> applied_at y"
    unfolding assms(5) by (rule recent_first [OF srt])
  show "\<exists>c'. rollback (Finite (of_nat n)) c = (Inr True, c') \<and> txn (db c') = None \<and>
           committed (db c') = (committed (db c))\<lparr>ledger :=
               Some (filter (\<lambda>x. row_name x \<notin> set (map row_name sel)) rows)\<rparr> \<and>
           sent c' = sent c @ concat (map (\<lambda>r. [Text ''BEGIN;'', Text (delete_sql (row_name r)),
                                                 Text ''COMMIT;'']) sel)"
    if "delivers (Suc (3 * length sel)) c"
    by (rule rollback_delivered [OF assms(2,3,4) sel [symmetric] that])
  show "\<exists>c'. rollback (Finite (of_nat n)) c = (Inr False, c') \<and> txn (db c') = None \<and>
           committed (db c') = (committed (db c))\<lparr>ledger :=
               Some (filter (\<lambda>x. row_name x \<notin> set (map row_name (take k sel))) rows)\<rparr> \<and>
           sent c' = sent c @ concat (map (\<lambda>r. [Text ''BEGIN;'', Text (delete_sql (row_name r)),
                                                 Text ''COMMIT;'']) (take k sel))
                     @ take (Suc j) [Text ''BEGIN;'', Text (delete_sql (row_name (sel ! k))),
                                     Text ''COMMIT;''] @ [Text ''ROLLBACK;'']"
    if h: "k < length sel \<and> j < 3 \<and>
          script c = replicate (Suc (3 * k + j)) Deliver @ Reject e # s \<and>
          (s = [] \<or> hd s = Deliver)" for k j e s
  proof -
    from h have h1: "k < length sel" and h2: "j < 3"
      and h3: "script c = replicate (Suc (3 * k + j)) Deliver @ Reject e # s"
      and h4: "s = [] \<or> hd s = Deliver" by blast+
    show ?thesis by (rule rollback_rejected [OF assms(2,3,4) sel [symmetric] h1 h2 h3 h4])
  qed
qed

lemma rollback_recent_example:
  "(\<exists>c'. rollback (Finite 2) c_abc = (Inr True, c') \<and>
      ledger (committed (db c'))
        = Some [\<lparr>row_name = ''1_a'', row_filename = ''1_a.sql'', applied_at = 1\<rparr>] \<and>
      sent c' = [Text ''BEGIN;'', Text (delete_sql ''3_c''), Text ''COMMIT;'',
                 Text ''BEGIN;'', Text (delete_sql ''2_b''), Text ''COMMIT;'']) \<and>
   (\<exists>c'. rollback (Finite 2) (c_abc\<lparr>script := replicate 4 Deliver @ [Reject connection_failure]\<rparr>)
        = (Inr False, c') \<and>
      ledger (committed (db c'))
        = Some [\<lparr>row_name = ''1_a'', row_filename = ''1_a.sql'', applied_at = 1\<rparr>,
                \<lparr>row_name = ''2_b'', row_filename = ''2_b.sql'', applied_at = 2\<rparr>])"
proof -
  let ?A = "\<lparr>row_name = ''1_a'', row_filename = ''1_a.sql'', applied_at = 1\<rparr>"
  let ?B = "\<lparr>row_name = ''2_b'', row_filename = ''2_b.sql'', applied_at = 2\<rparr>"
  let ?C = "\<lparr>row_name = ''3_c'', row_filename = ''3_c.sql'', applied_at = 3\<rparr>"
  let ?c2 = "c_abc\<lparr>script := replicate 4 Deliver @ [Reject connection_failure]\<rparr>"
  have n: "0 < (2::nat)" by simp
  have t: "txn (db c_abc) = None" and l: "ledger (committed (db c_abc)) = Some [?A, ?B, ?C]"
    and t2: "txn (db ?c2) = None" and l2: "ledger (committed (db ?c2)) = Some [?A, ?B, ?C]"
    by (simp_all add: c_abc_def)
  have q: "\<forall>r\<in>set [?A, ?B, ?C]. sq \<notin> set (row_name r)" by (simp add: sq_def)
  have sel: "[?C, ?B] = take 2 (rev (sort_key applied_at [?A, ?B, ?C]))" by simp
  have d: "delivers (Suc (3 * length [?C, ?B])) c_abc" by (simp add: delivers_def c_abc_def)
  have rej: "(1::nat) < length [?C, ?B] \<and> (0::nat) < 3 \<and>
      script ?c2 = replicate (Suc (3 * 1 + 0)) Deliver @ Reject connection_failure # [] \<and>
      ([] = [] \<or> hd [] = Deliver)"
    by (simp add: numeral_eq_Suc)
  from rollback_recent [OF n t l q sel] d
  obtain c' where 1: "rollback (Finite (of_nat 2)) c_abc = (Inr True, c')"
    "committed (db c') = (committed (db c_abc))\<lparr>ledger :=
        Some (filter (\<lambda>x. row_name x \<notin> set (map row_name [?C, ?B])) [?A, ?B, ?C])\<rparr>"
    "sent c' = sent c_abc @ concat (map (\<lambda>r. [Text ''BEGIN;'', Text (delete_sql (row_name r)),
                                                Text ''COMMIT;'']) [?C, ?B])"
    by blast
  from rollback_recent [OF n t2 l2 q sel] rej
  obtain c'' where 2: "rollback (Finite (of_nat 2)) ?c2 = (Inr False, c'')"
    "committed (db c'') = (committed (db ?c2))\<lparr>ledger :=
        Some (filter (\<lambda>x. row_name x \<notin> set (map row_name (take 1 [?C, ?B]))) [?A, ?B, ?C])\<rparr>"
    by blast
  have a: "rollback (Finite 2) c_abc = (Inr True, c') \<and>
      ledger (committed (db c')) = Some [?A] \<and>
      sent c' = [Text ''BEGIN;'', Text (delete_sql ''3_c''), Text ''COMMIT;'',
                 Text ''BEGIN;'', Text (delete_sql ''2_b''), Text ''COMMIT;'']"
    using 1 by (simp add: c_abc_def)
  have b: "rollback (Finite 2) ?c2 = (Inr False, c'') \<and>
      ledger (committed (db c'')) = Some [?A, ?B]"
    using 2 by simp
  show ?thesis
    by (rule conjI, rule exI [of _ c'], rule a, rule exI [of _ c''], rule b)
qed

text \<open>A round whose \<^verbatim>\<open>DELETE\<close> the session cannot read: the error comes back in the
  result, which the loop does not look at.\<close>

lemma revert_one_refused:
  assumes "delivers (3 + k) c" "txn (db c) = None" "parse_sql (delete_sql (row_name r)) = None"
  shows "\<exists>c'. revert_one r c = (Inr True, c') \<and> delivers k c' \<and>
           script c' = drop 3 (script c) \<and> txn (db c') = None \<and>
           committed (db c') = committed (db c) \<and>
           sent c' = sent c @ [Text ''BEGIN;'', Text (delete_sql (row_name r)), Text ''COMMIT;'']"
proof -
  let ?q = "Text (delete_sql (row_name r))"
  define c1 where "c1 = c\<lparr>script := tl (script c), sent := sent c @ [Text ''BEGIN;''],
                          db := snd (exec_sql (Text ''BEGIN;'') (db c))\<rparr>"
  define c2 where "c2 = c1\<lparr>script := tl (script c1), sent := sent c1 @ [?q],
                           db := snd (exec_sql ?q (db c1))\<rparr>"
  define c3 where "c3 = c2\<lparr>script := tl (script c2), sent := sent c2 @ [Text ''COMMIT;''],
                           db := snd (exec_sql (Text ''COMMIT;'') (db c2))\<rparr>"
  have d0: "delivers (Suc (Suc (Suc k))) c" using assms(1) by (simp add: numeral_3_eq_3)
  have r1: "rpc (Text ''BEGIN;'') c = (Inr (fst (exec_sql (Text ''BEGIN;'') (db c))), c1)"
    unfolding c1_def by (rule rpc_deliver [OF d0])
  have d1: "delivers (Suc (Suc k)) c1"
    unfolding c1_def using delivers_Suc [OF d0] by (simp add: delivers_def)
  have r2: "rpc ?q c1 = (Inr (fst (exec_sql ?q (db c1))), c2)"
    unfolding c2_def by (rule rpc_deliver [OF d1])
  have d2: "delivers (Suc k) c2"
    unfolding c2_def using delivers_Suc [OF d1] by (simp add: delivers_def)
  have r3: "rpc (Text ''COMMIT;'') c2 = (Inr (fst (exec_sql (Text ''COMMIT;'') (db c2))), c3)"
    unfolding c3_def by (rule rpc_deliver [OF d2])
  have d3: "delivers k c3"
    unfolding c3_def using delivers_Suc [OF d2] by (simp add: delivers_def)
  have run: "revert_one r c = (Inr True, c3)"
    by (simp add: revert_one_def r1 r2 r3)
  let ?t = "\<lparr>work = committed (db c), aborted = False, started = clock (db c)\<rparr>"
  have db1: "db c1 = (db c)\<lparr>txn := Some ?t, clock := Suc (clock (db c))\<rparr>"
    by (simp add: c1_def exec_begin assms(2))
  have db2: "db c2 = (db c1)\<lparr>txn := Some (?t\<lparr>aborted := True\<rparr>)\<rparr>"
    unfolding c2_def by (simp add: exec_sql_def assms(3) run_statement_def db1)
  have db3: "committed (db c3) = committed (db c)" "txn (db c3) = None"
    unfolding c3_def by (simp_all add: db2 exec_commit db1)
  have sc: "script c3 = drop 3 (script c)"
    by (simp add: c3_def c2_def c1_def numeral_3_eq_3 drop_Suc tl_drop)
  have sn: "sent c3 = sent c @ [Text ''BEGIN;'', ?q, Text ''COMMIT;'']"
    by (simp add: c3_def c2_def c1_def)
  show ?thesis using run d3 sc db3 sn by blast
qed

text \<open>
  Claim C6, where the code departs from it. The loop of \<^verbatim>\<open>rollback\<close> reads the result
  of none of its calls, so a \<^verbatim>\<open>DELETE\<close> that fails in the database neither removes the
  record nor stops the loop. With the records \<^verbatim>\<open>1_a\<close> and, applied after it, \<^verbatim>\<open>2_it's\<close>,
  \<^verbatim>\<open>rollback(2)\<close> sends a \<^verbatim>\<open>DELETE\<close> for \<^verbatim>\<open>2_it's\<close> that the session cannot read, goes on
  to \<^verbatim>\<open>1_a\<close> and returns \<^verbatim>\<open>true\<close>: the older record is removed and the most recent one
  stays.
\<close>

theorem rollback_unreadable_delete:
  "fst (rollback (Finite 2) c_quoted) = Inr True \<and>
   ledger (committed (db (snd (rollback (Finite 2) c_quoted))))
     = Some [\<lparr>row_name = ''2_it's'', row_filename = ''2_it's.sql'', applied_at = 2\<rparr>] \<and>
   sent (snd (rollback (Finite 2) c_quoted))
     = [Text ''BEGIN;'', Text (delete_sql ''2_it's''), Text ''COMMIT;'',
        Text ''BEGIN;'', Text (delete_sql ''1_a''), Text ''COMMIT;'']"
proof -
  let ?A = "\<lparr>row_name = ''1_a'', row_filename = ''1_a.sql'', applied_at = 1\<rparr>"
  let ?Q = "\<lparr>row_name = ''2_it's'', row_filename = ''2_it's.sql'', applied_at = 2\<rparr>"
  have s: "script c_quoted = []" and t: "txn (db c_quoted) = None"
    and l: "ledger (committed (db c_quoted)) = Some [?A, ?Q]" and sn: "sent c_quoted = []"
    by (simp_all add: c_quoted_def)
  have ga: "getAppliedMigrations c_quoted = ([?A, ?Q], c_quoted)"
    using getApplied_delivered [OF s t l] by simp
  have sel: "migrationsToRollback (Finite 2) [?A, ?Q] = [?Q, ?A]"
    by (simp add: migrationsToRollback_def slice_neg_def)
  have bad: "parse_sql (delete_sql (row_name ?Q)) = None"
    by (simp add: parse_sql_delete_sql parse_delete_sql sq_def)
  have d: "delivers (3 + 3) c_quoted" by (simp add: delivers_def s)
  from revert_one_refused [OF d t bad] obtain c1 where
    c1: "revert_one ?Q c_quoted = (Inr True, c1)" "delivers 3 c1" "txn (db c1) = None"
      "committed (db c1) = committed (db c_quoted)"
      "sent c1 = sent c_quoted @ [Text ''BEGIN;'', Text (delete_sql (row_name ?Q)), Text ''COMMIT;'']"
    by blast
  have d1: "delivers (3 + 0) c1" using c1(2) by simp
  have l1: "ledger (committed (db c1)) = Some [?A, ?Q]" by (simp add: c1(4) l)
  have qa: "sq \<notin> set (row_name ?A)" by (simp add: sq_def)
  from revert_one_delivered [OF d1 c1(3) l1 qa] obtain c2 where
    c2: "revert_one ?A c1 = (Inr True, c2)"
      "committed (db c2) = (committed (db c1))\<lparr>ledger :=
          Some (filter (\<lambda>x. row_name x \<noteq> row_name ?A) [?A, ?Q])\<rparr>"
      "sent c2 = sent c1 @ [Text ''BEGIN;'', Text (delete_sql (row_name ?A)), Text ''COMMIT;'']"
    by blast
  have "revert_each [?Q, ?A] c_quoted = (Inr True, c2)"
    using c1(1) c2(1) by simp
  then have "revert_each (migrationsToRollback (Finite 2) [?A, ?Q]) c_quoted = (Inr True, c2)"
    by (simp only: sel)
  then have run: "rollback (Finite 2) c_quoted = (Inr True, c2)"
    unfolding rollback_def ga by simp
  show ?thesis by (simp add: run c2 c1 sn)
qed

text \<open>
  Claim C8. The command \<^verbatim>\<open>down 0\<close> calls \<^verbatim>\<open>rollback(0)\<close>, whose selection
  \<^verbatim>\<open>slice(-0)\<close> is the whole applied list, most recent first. When the calls are
  delivered (and the names hold no quote character), every ledger record is deleted:
  the ledger is empty afterwards.
\<close>

theorem rollback_zero_reverts_all:
  assumes "txn (db c) = None" "ledger (committed (db c)) = Some rows"
    "\<forall>r\<in>set rows. sq \<notin> set (row_name r)" "delivers (Suc (3 * length rows)) c"
  shows
    "rollbackSteps (Some ''0'') = Finite 0 \<and>
     down (Some ''0'') c = rollback (Finite 0) c \<and>
     migrationsToRollback (Finite 0) (sort_key applied_at rows) = rev (sort_key applied_at rows) \<and>
     (\<exists>c'. rollback (Finite 0) c = (Inr True, c') \<and> txn (db c') = None \<and>
        committed (db c') = (committed (db c))\<lparr>ledger := Some []\<rparr> \<and>
        sent c' = sent c @ concat (map (\<lambda>r. [Text ''BEGIN;'', Text (delete_sql (row_name r)),
                                              Text ''COMMIT;'']) (rev (sort_key applied_at rows))))"
proof (intro conjI)
  show z: "rollbackSteps (Some ''0'') = Finite 0"
    by (simp add: rollbackSteps_def parseInt_def js_whitespace_def in_radix_def digit_value_def
        digits_value_def dv_def)
  show "down (Some ''0'') c = rollback (Finite 0) c" by (simp add: down_def z)
  show sel: "migrationsToRollback (Finite 0) (sort_key applied_at rows) = rev (sort_key applied_at rows)"
    by (simp add: migrationsToRollback_def slice_neg_zero)
  have d: "delivers (Suc (3 * length (rev (sort_key applied_at rows)))) c"
    using assms(4) by simp
  have "filter (\<lambda>x. row_name x \<notin> set (map row_name (rev (sort_key applied_at rows)))) rows = []"
    by (simp add: filter_empty_conv)
  with rollback_delivered [OF assms(1,2,3) sel [symmetric] d]
  show "\<exists>c'. rollback (Finite 0) c = (Inr True, c') \<and> txn (db c') = None \<and>
        committed (db c') = (committed (db c))\<lparr>ledger := Some []\<rparr> \<and>
        sent c' = sent c @ concat (map (\<lambda>r. [Text ''BEGIN;'', Text (delete_sql (row_name r)),
                                              Text ''COMMIT;'']) (rev (sort_key applied_at rows)))"
    by simp
qed


theorem rollback_zero_reverts_all_witness:
  "\<exists>c'. down (Some ''0'') c_abc = (Inr True, c') \<and>
      ledger (committed (db c')) = Some [] \<and>
      sent c' = [Text ''BEGIN;'', Text (delete_sql ''3_c''), Text ''COMMIT;'',
                 Text ''BEGIN;'', Text (delete_sql ''2_b''), Text ''COMMIT;'',
                 Text ''BEGIN;'', Text (delete_sql ''1_a''), Text ''COMMIT;'']"
proof -
  let ?A = "\<lparr>row_name = ''1_a'', row_filename = ''1_a.sql'', applied_at = 1\<rparr>"
  let ?B = "\<lparr>row_name = ''2_b'', row_filename = ''2_b.sql'', applied_at = 2\<rparr>"
  let ?C = "\<lparr>row_name = ''3_c'', row_filename = ''3_c.sql'', applied_at = 3\<rparr>"
  have t: "txn (db c_abc) = None" and l: "ledger (committed (db c_abc)) = Some [?A, ?B, ?C]"
    by (simp_all add: c_abc_def)
  have q: "\<forall>r\<in>set [?A, ?B, ?C]. sq \<notin> set (row_name r)" by (simp add: sq_def)
  have d: "delivers (Suc (3 * length [?A, ?B, ?C])) c_abc" by (simp add: delivers_def c_abc_def)
  from rollback_zero_reverts_all [OF t l q d]
  obtain c' where 1: "down (Some ''0'') c_abc = rollback (Finite 0) c_abc"
    "rollback (Finite 0) c_abc = (Inr True, c')"
    "committed (db c') = (committed (db c_abc))\<lparr>ledger := Some []\<rparr>"
    "sent c' = sent c_abc @ concat (map (\<lambda>r. [Text ''BEGIN;'', Text (delete_sql (row_name r)),
                                     Text ''COMMIT;'']) (rev (sort_key applied_at [?A, ?B, ?C])))"
    by blast
  have a: "down (Some ''0'') c_abc = (Inr True, c') \<and>
      ledger (committed (db c')) = Some [] \<and>
      sent c' = [Text ''BEGIN;'', Text (delete_sql ''3_c''), Text ''COMMIT;'',
                 Text ''BEGIN;'', Text (delete_sql ''2_b''), Text ''COMMIT;'',
                 Text ''BEGIN;'', Text (delete_sql ''1_a''), Text ''COMMIT;'']"
    using 1 by (simp add: c_abc_def)
  show ?thesis by (rule exI [of _ c'], rule a)
qed

end
